theory Spec2Isabelle
  imports Complex_Main
begin

section \<open>JavaScript values used by the trade pipeline\<close>

text \<open>
  A JavaScript \<open>number\<close> is a double. The model keeps the special values that decide
  control flow (\<open>NaN\<close> and the infinities) and idealises every finite double as a real
  number: rounding, overflow and the sign of zero are not represented.
\<close>

datatype jsnum = Num real | NaN | PosInf | NegInf

text \<open>The relational operator \<open>a <= b\<close>: false as soon as one operand is \<open>NaN\<close>.\<close>

fun js_le :: "jsnum \<Rightarrow> jsnum \<Rightarrow> bool" where
  "js_le NaN _ = False"
| "js_le _ NaN = False"
| "js_le (Num a) (Num b) = (a \<le> b)"
| "js_le NegInf _ = True"
| "js_le _ PosInf = True"
| "js_le PosInf _ = False"
| "js_le (Num a) NegInf = False"

text \<open>The relational operator \<open>a > b\<close>, again false on \<open>NaN\<close>.\<close>

fun js_gt :: "jsnum \<Rightarrow> jsnum \<Rightarrow> bool" where
  "js_gt NaN _ = False"
| "js_gt _ NaN = False"
| "js_gt (Num a) (Num b) = (a > b)"
| "js_gt PosInf PosInf = False"
| "js_gt PosInf _ = True"
| "js_gt _ PosInf = False"
| "js_gt NegInf _ = False"
| "js_gt (Num a) NegInf = True"

text \<open>Division and multiplication of doubles, with the IEEE treatment of zero divisors,
  infinities and \<open>NaN\<close> written out (a zero divisor is taken as \<open>+0\<close>).\<close>

fun js_div :: "jsnum \<Rightarrow> jsnum \<Rightarrow> jsnum" where
  "js_div NaN _ = NaN"
| "js_div _ NaN = NaN"
| "js_div (Num a) (Num b) =
     (if b \<noteq> 0 then Num (a / b)
      else if a = 0 then NaN else if a > 0 then PosInf else NegInf)"
| "js_div (Num a) PosInf = Num 0"
| "js_div (Num a) NegInf = Num 0"
| "js_div PosInf (Num b) = (if b \<ge> 0 then PosInf else NegInf)"
| "js_div NegInf (Num b) = (if b \<ge> 0 then NegInf else PosInf)"
| "js_div PosInf _ = NaN"
| "js_div NegInf _ = NaN"

fun js_mul :: "jsnum \<Rightarrow> jsnum \<Rightarrow> jsnum" where
  "js_mul NaN _ = NaN"
| "js_mul _ NaN = NaN"
| "js_mul (Num a) (Num b) = Num (a * b)"
| "js_mul PosInf (Num b) = (if b = 0 then NaN else if b > 0 then PosInf else NegInf)"
| "js_mul NegInf (Num b) = (if b = 0 then NaN else if b > 0 then NegInf else PosInf)"
| "js_mul (Num a) PosInf = (if a = 0 then NaN else if a > 0 then PosInf else NegInf)"
| "js_mul (Num a) NegInf = (if a = 0 then NaN else if a > 0 then NegInf else PosInf)"
| "js_mul PosInf PosInf = PosInf"
| "js_mul NegInf NegInf = PosInf"
| "js_mul PosInf NegInf = NegInf"
| "js_mul NegInf PosInf = NegInf"

text \<open>
  A thrown \<open>Error\<close> object. The errors of this repository are identified by their
  message; the two errors the client library throws for a field value it refuses are
  identified by the name of the field and the value.
\<close>

datatype jserror =
    JsError string
  | InvalidFloatValue string jsnum
  | InvalidIntegerValue string jsnum

text \<open>
  A \<open>Date\<close> holds a time value in milliseconds since the epoch, or \<open>NaN\<close>
  (an invalid date). \<open>new Date(t)\<close> clips the time value to the representable range.
\<close>

datatype jsdate = ValidDate int | InvalidDate

definition msPerSecond :: int where "msPerSecond = 1000"
definition msPerMinute :: int where "msPerMinute = 60000"
definition msPerHour :: int where "msPerHour = 3600000"
definition msPerDay :: int where "msPerDay = 86400000"

definition Day :: "int \<Rightarrow> int" where
  "Day t = t div msPerDay"

definition HourFromTime :: "int \<Rightarrow> int" where
  "HourFromTime t = (t div msPerHour) mod 24"

definition MinFromTime :: "int \<Rightarrow> int" where
  "MinFromTime t = (t div msPerMinute) mod 60"

definition SecFromTime :: "int \<Rightarrow> int" where
  "SecFromTime t = (t div msPerSecond) mod 60"

definition msFromTime :: "int \<Rightarrow> int" where
  "msFromTime t = t mod msPerSecond"

definition MakeTime :: "int \<Rightarrow> int \<Rightarrow> int \<Rightarrow> int \<Rightarrow> int" where
  "MakeTime h m s ms = h * msPerHour + m * msPerMinute + s * msPerSecond + ms"

definition MakeDate :: "int \<Rightarrow> int \<Rightarrow> int" where
  "MakeDate day time = day * msPerDay + time"

definition TimeClip :: "int \<Rightarrow> jsdate" where
  "TimeClip t = (if \<bar>t\<bar> > 8640000000000000 then InvalidDate else ValidDate t)"

definition newDate :: "int \<Rightarrow> jsdate" where
  "newDate t = TimeClip t"

fun setUTCHours :: "jsdate \<Rightarrow> int \<Rightarrow> jsdate" where
  "setUTCHours InvalidDate h = InvalidDate"
| "setUTCHours (ValidDate t) h =
     TimeClip (MakeDate (Day t) (MakeTime h (MinFromTime t) (SecFromTime t) (msFromTime t)))"

fun setUTCMinutes :: "jsdate \<Rightarrow> int \<Rightarrow> jsdate" where
  "setUTCMinutes InvalidDate m = InvalidDate"
| "setUTCMinutes (ValidDate t) m =
     TimeClip (MakeDate (Day t) (MakeTime (HourFromTime t) m (SecFromTime t) (msFromTime t)))"

fun setUTCSeconds :: "jsdate \<Rightarrow> int \<Rightarrow> jsdate" where
  "setUTCSeconds InvalidDate s = InvalidDate"
| "setUTCSeconds (ValidDate t) s =
     TimeClip (MakeDate (Day t) (MakeTime (HourFromTime t) (MinFromTime t) s (msFromTime t)))"

fun setUTCMilliseconds :: "jsdate \<Rightarrow> int \<Rightarrow> jsdate" where
  "setUTCMilliseconds InvalidDate ms = InvalidDate"
| "setUTCMilliseconds (ValidDate t) ms =
     TimeClip (MakeDate (Day t) (MakeTime (HourFromTime t) (MinFromTime t) (SecFromTime t) ms))"

text \<open>
  A \<open>string\<close> is a list of code units below 256. \<open>String.prototype.trim\<close> removes the
  white space and line terminators from both ends; those below 256 are tab, line feed,
  vertical tab, form feed, carriage return, space and the no-break space U+00A0. (The
  other Unicode spaces lie above 255 and are not represented.)
\<close>

definition js_whitespace :: "char \<Rightarrow> bool" where
  "js_whitespace c =
     (c = CHR 0x09 \<or> c = CHR 0x0A \<or> c = CHR 0x0B \<or> c = CHR 0x0C \<or> c = CHR 0x0D
      \<or> c = CHR '' '' \<or> c = CHR 0xA0)"

definition js_trim :: "string \<Rightarrow> string" where
  "js_trim s = rev (dropWhile js_whitespace (rev (dropWhile js_whitespace s)))"

section \<open>The trade model\<close>

text \<open>The enum \<open>TradeSide\<close>; its members carry the string values \<open>'buy'\<close> and \<open>'sell'\<close>.\<close>

datatype TradeSide = BUY | SELL

fun TradeSide_value :: "TradeSide \<Rightarrow> string" where
  "TradeSide_value BUY = ''buy''"
| "TradeSide_value SELL = ''sell''"


text \<open>
  The interface \<open>Trade\<close>. The side is a type parameter: nothing in \<open>createTrade\<close>
  inspects it, so the factory is modelled for any value passed in that position.
\<close>

record 'side Trade =
  symbol :: string
  side :: 'side
  price :: jsnum
  amount :: jsnum
  timestamp :: jsdate

text \<open>
  \<open>createTrade\<close>: the four validation checks in the order of the source, each throwing
  its own \<open>Error\<close>; otherwise the object literal built from the arguments.
  The parameter is typed \<open>Date\<close>, so \<open>timestamp instanceof Date\<close> holds and the check
  reduces to \<open>isNaN(timestamp.getTime())\<close>.
\<close>

definition createTrade ::
  "string \<Rightarrow> 'side \<Rightarrow> jsnum \<Rightarrow> jsnum \<Rightarrow> jsdate \<Rightarrow> jserror + 'side Trade" where
  "createTrade symb sd pr amt ts =
     (if symb = [] \<or> js_trim symb = [] then Inl (JsError ''Symbol is required'')
      else if js_le pr (Num 0) then Inl (JsError ''Price must be greater than zero'')
      else if js_le amt (Num 0) then Inl (JsError ''Amount must be greater than zero'')
      else if ts = InvalidDate then Inl (JsError ''Valid timestamp is required'')
      else Inr \<lparr>symbol = symb, side = sd, price = pr, amount = amt, timestamp = ts\<rparr>)"

section \<open>The trade generator\<close>

text \<open>
  \<open>TradeGenerationConfig\<close>. The two dates are valid \<open>Date\<close> objects, kept as their time
  values (what \<open>getTime()\<close> returns); the two counts are integers.
\<close>

record TradeGenerationConfig =
  totalTrades :: int
  batchSize :: int
  startDate :: int
  endDate :: int
  symbols :: "string list"

text \<open>
  The fields of \<open>TradeGeneratorServiceImpl\<close>. \<open>Math.random()\<close> is ambient state in the
  source; here it is a stream \<open>R\<close> of the values it returns, and \<open>randomCalls\<close> counts
  the values already consumed.
\<close>

record TradeGeneratorServiceImpl =
  config :: TradeGenerationConfig
  startTimestamp :: int
  endTimestamp :: int
  timeRange :: int
  baselinePrices :: "string \<rightharpoonup> real"
  randomCalls :: nat

text \<open>\<open>initializeBaselinePrices\<close>: one draw per configured symbol, in order; a repeated
  symbol overwrites its earlier entry.\<close>

definition initializeBaselinePrices ::
  "(nat \<Rightarrow> real) \<Rightarrow> string list \<Rightarrow> nat \<Rightarrow> (string \<rightharpoonup> real) \<times> nat" where
  "initializeBaselinePrices R syms n =
     foldl (\<lambda>(prices, k) s. (prices(s \<mapsto> 50 + R k * 450), Suc k)) (Map.empty, n) syms"

text \<open>The constructor.\<close>

definition newTradeGeneratorService ::
  "(nat \<Rightarrow> real) \<Rightarrow> TradeGenerationConfig \<Rightarrow> TradeGeneratorServiceImpl" where
  "newTradeGeneratorService R cfg =
     (let (prices, k) = initializeBaselinePrices R (symbols cfg) 0
      in \<lparr>config = cfg,
          startTimestamp = startDate cfg,
          endTimestamp = endDate cfg,
          timeRange = endDate cfg - startDate cfg,
          baselinePrices = prices,
          randomCalls = k\<rparr>)"

text \<open>\<open>generateRandomTimestamp\<close>: five draws; the offset, then the four setters.\<close>

definition generateRandomTimestamp ::
  "(nat \<Rightarrow> real) \<Rightarrow> TradeGeneratorServiceImpl \<Rightarrow> jsdate \<times> TradeGeneratorServiceImpl" where
  "generateRandomTimestamp R g =
     (let n = randomCalls g;
          randomOffset = \<lfloor>R n * real_of_int (timeRange g)\<rfloor>;
          tstamp = startTimestamp g + randomOffset;
          d0 = newDate tstamp;
          d1 = setUTCHours d0 (14 + \<lfloor>R (n + 1) * 7\<rfloor>);
          d2 = setUTCMinutes d1 \<lfloor>R (n + 2) * 60\<rfloor>;
          d3 = setUTCSeconds d2 \<lfloor>R (n + 3) * 60\<rfloor>;
          d4 = setUTCMilliseconds d3 \<lfloor>R (n + 4) * 1000\<rfloor>
      in (d4, g\<lparr>randomCalls := n + 5\<rparr>))"

text \<open>
  \<open>parseFloat(price.toFixed(2))\<close>: the nearest multiple of 1/100, ties away from zero;
  from \<open>10^21\<close> on \<open>toFixed\<close> prints the number itself.
\<close>

definition toFixed2 :: "real \<Rightarrow> real" where
  "toFixed2 x =
     (if \<bar>x\<bar> \<ge> 10 ^ 21 then x
      else if x < 0 then - (real_of_int \<lfloor>(- x) * 100 + 1 / 2\<rfloor> / 100)
      else real_of_int \<lfloor>x * 100 + 1 / 2\<rfloor> / 100)"

text \<open>\<open>this.baselinePrices.get(symbol) || 100\<close>: a missing entry and a zero entry
  both give 100.\<close>

definition basePrice_of :: "(string \<rightharpoonup> real) \<Rightarrow> string \<Rightarrow> real" where
  "basePrice_of prices s =
     (case prices s of None \<Rightarrow> 100 | Some b \<Rightarrow> if b = 0 then 100 else b)"

text \<open>
  \<open>generateRandomPrice\<close>: two draws, the variation of the emitted price and the drift
  of the stored baseline. The operations are those of the source, each carried out
  exactly: the source rounds the result of each to a double, so the price and the
  baseline of the program can differ from these in the last place (and the price, at a
  tie of \<open>toFixed\<close>, by 1/100). Nothing below is stated about their digits.
\<close>

definition generateRandomPrice ::
  "(nat \<Rightarrow> real) \<Rightarrow> TradeGeneratorServiceImpl \<Rightarrow> string \<Rightarrow> real \<times> TradeGeneratorServiceImpl" where
  "generateRandomPrice R g s =
     (let n = randomCalls g;
          basePrice = basePrice_of (baselinePrices g) s;
          variation = (R n - 1 / 2) * (1 / 10);
          pr = basePrice * (1 + variation);
          drift = (R (n + 1) - 1 / 2) * (1 / 100)
      in (toFixed2 pr,
          g\<lparr>baselinePrices := (baselinePrices g)(s \<mapsto> basePrice * (1 + drift)),
            randomCalls := n + 2\<rparr>))"

text \<open>\<open>generateRandomAmount\<close>: one draw; again with exact operations where the source
  rounds to doubles, so at a draw whose square times 1000 falls next to a whole number
  the amount of the program can be larger by one.\<close>

definition generateRandomAmount ::
  "(nat \<Rightarrow> real) \<Rightarrow> TradeGeneratorServiceImpl \<Rightarrow> int \<times> TradeGeneratorServiceImpl" where
  "generateRandomAmount R g =
     (let n = randomCalls g
      in (\<lfloor>(R n) ^ 2 * 1000\<rfloor> + 1, g\<lparr>randomCalls := n + 1\<rparr>))"

text \<open>Array indexing \<open>xs[i]\<close>: \<open>undefined\<close> outside the array.\<close>

definition js_index :: "'a list \<Rightarrow> int \<Rightarrow> 'a option" where
  "js_index xs i = (if 0 \<le> i \<and> i < int (length xs) then Some (xs ! nat i) else None)"

text \<open>
  The body of the loop of \<open>generateBatch\<close>: one trade, or the error \<open>createTrade\<close> throws.
  When the index falls outside \<open>symbols\<close> the symbol is \<open>undefined\<close>: the three helpers
  still run (eight draws; the price helper stores its entry under the key \<open>undefined\<close>,
  which no string key reads back) and \<open>createTrade\<close> throws on the falsy symbol.
\<close>

definition generateTrade ::
  "(nat \<Rightarrow> real) \<Rightarrow> TradeGeneratorServiceImpl
     \<Rightarrow> (jserror + TradeSide Trade) \<times> TradeGeneratorServiceImpl" where
  "generateTrade R g =
     (let n = randomCalls g;
          symbolIndex = \<lfloor>R n * real (length (symbols (config g)))\<rfloor>;
          sd = (if R (n + 1) < 1 / 2 then BUY else SELL);
          g2 = g\<lparr>randomCalls := n + 2\<rparr>
      in case js_index (symbols (config g)) symbolIndex of
           None \<Rightarrow> (Inl (JsError ''Symbol is required''), g\<lparr>randomCalls := n + 10\<rparr>)
         | Some s \<Rightarrow>
             (let (pr, g3) = generateRandomPrice R g2 s;
                  (amt, g4) = generateRandomAmount R g3;
                  (ts, g5) = generateRandomTimestamp R g4
              in (createTrade s sd (Num pr) (Num (real_of_int amt)) ts, g5)))"

text \<open>The \<open>for\<close> loop of \<open>generateBatch\<close>, from index \<open>i\<close> with the trades pushed so far.\<close>

function generateBatch_loop ::
  "(nat \<Rightarrow> real) \<Rightarrow> int \<Rightarrow> int \<Rightarrow> TradeSide Trade list \<Rightarrow> TradeGeneratorServiceImpl
     \<Rightarrow> (jserror + TradeSide Trade list) \<times> TradeGeneratorServiceImpl" where
  "generateBatch_loop R i n trades g =
     (if i < n then
        (case generateTrade R g of
           (Inl e, g') \<Rightarrow> (Inl e, g')
         | (Inr t, g') \<Rightarrow> generateBatch_loop R (i + 1) n (trades @ [t]) g')
      else (Inr trades, g))"
  by pat_completeness auto
termination
  by (relation "measure (\<lambda>(R, i, n, trades, g). nat (n - i))") auto

declare generateBatch_loop.simps [simp del]

definition generateBatch ::
  "(nat \<Rightarrow> real) \<Rightarrow> TradeGeneratorServiceImpl \<Rightarrow> int
     \<Rightarrow> (jserror + TradeSide Trade list) \<times> TradeGeneratorServiceImpl" where
  "generateBatch R g n = generateBatch_loop R 0 n [] g"

definition getTotalTrades :: "TradeGeneratorServiceImpl \<Rightarrow> int" where
  "getTotalTrades g = totalTrades (config g)"

definition getRecommendedBatchSize :: "TradeGeneratorServiceImpl \<Rightarrow> int" where
  "getRecommendedBatchSize g = batchSize (config g)"

section \<open>The InfluxDB repository\<close>

text \<open>
  The client library \<open>@influxdata/influxdb-client\<close> is not part of the repository. Its
  \<open>Point\<close> is modelled by what its builder methods keep and what they refuse:
  \<open>tag\<close> and the two field methods store under the given key (a later value for the
  same key replaces the earlier one); \<open>floatField\<close> throws unless the value is finite;
  \<open>intField\<close> throws when the value is \<open>NaN\<close> or not strictly between \<open>-2^63\<close> and
  \<open>2^63\<close>, and otherwise stores \<open>Math.floor\<close> of it; \<open>timestamp\<close> stores the date.
  The two errors are identified by the field name and the value their message quotes.
\<close>

datatype field_value = FloatField real | IntField int

record Point =
  point_name :: string
  point_tags :: "string \<rightharpoonup> string"
  point_fields :: "string \<rightharpoonup> field_value"
  point_time :: "jsdate option"

definition newPoint :: "string \<Rightarrow> Point" where
  "newPoint nm =
     \<lparr>point_name = nm, point_tags = Map.empty, point_fields = Map.empty, point_time = None\<rparr>"

definition tag :: "string \<Rightarrow> string \<Rightarrow> Point \<Rightarrow> Point" where
  "tag k v p = p\<lparr>point_tags := (point_tags p)(k \<mapsto> v)\<rparr>"

fun floatField :: "string \<Rightarrow> jsnum \<Rightarrow> Point \<Rightarrow> jserror + Point" where
  "floatField k (Num x) p = Inr (p\<lparr>point_fields := (point_fields p)(k \<mapsto> FloatField x)\<rparr>)"
| "floatField k v p = Inl (InvalidFloatValue k v)"

fun intField :: "string \<Rightarrow> jsnum \<Rightarrow> Point \<Rightarrow> jserror + Point" where
  "intField k (Num x) p =
     (if x \<le> - (2 ^ 63) \<or> x \<ge> 2 ^ 63 then Inl (InvalidIntegerValue k (Num x))
      else Inr (p\<lparr>point_fields := (point_fields p)(k \<mapsto> IntField \<lfloor>x\<rfloor>)\<rparr>))"
| "intField k v p = Inl (InvalidIntegerValue k v)"

definition Point_timestamp :: "jsdate \<Rightarrow> Point \<Rightarrow> Point" where
  "Point_timestamp d p = p\<lparr>point_time := Some d\<rparr>"

text \<open>\<open>tradeToPoint\<close>: the chain of builder calls in the order of the source; the first
  method that throws ends it.\<close>

definition tradeToPoint :: "TradeSide Trade \<Rightarrow> jserror + Point" where
  "tradeToPoint trade =
     (case floatField ''price'' (price trade)
             (tag ''side'' (TradeSide_value (side trade))
               (tag ''symbol'' (symbol trade)
                 (newPoint ''trade''))) of
        Inl e \<Rightarrow> Inl e
      | Inr p \<Rightarrow>
          (case intField ''amount'' (amount trade) p of
             Inl e \<Rightarrow> Inl e
           | Inr p' \<Rightarrow> Inr (Point_timestamp (timestamp trade) p')))"











section \<open>The ingestion service\<close>

text \<open>The payload of the \<open>progress\<close> and \<open>complete\<close> events.\<close>

record ProgressData =
  processed :: int
  total :: int
  percentage :: jsnum
  elapsedMs :: int
  estimatedRemainingMs :: jsnum
  tradesPerSecond :: jsnum

text \<open>What \<open>this.events.emit\<close> is called with. The listeners belong to the caller: the
  model records what is emitted, in order.\<close>

datatype event =
    EvProgress ProgressData
  | EvComplete ProgressData
  | EvError jserror
  | EvStopped

text \<open>
  The interface \<open>TradeGeneratorService\<close> the service is constructed with, over a
  generator state \<open>'g\<close>. \<open>generateBatch\<close> returns the batch or the error it throws,
  together with the generator state it leaves behind.
\<close>

record ('g, 't) TradeGeneratorService =
  svc_generateBatch :: "'g \<Rightarrow> int \<Rightarrow> (jserror + 't list) \<times> 'g"
  svc_getTotalTrades :: "'g \<Rightarrow> int"
  svc_getRecommendedBatchSize :: "'g \<Rightarrow> int"

text \<open>The implementation of the interface by \<open>TradeGeneratorServiceImpl\<close>.\<close>

definition TradeGeneratorService_of ::
  "(nat \<Rightarrow> real) \<Rightarrow> (TradeGeneratorServiceImpl, TradeSide Trade) TradeGeneratorService" where
  "TradeGeneratorService_of R =
     \<lparr>svc_generateBatch = generateBatch R,
      svc_getTotalTrades = getTotalTrades,
      svc_getRecommendedBatchSize = getRecommendedBatchSize\<rparr>"

text \<open>
  One invocation of \<open>startIngestion\<close> owns four local variables. Between two steps of
  the event loop it is either suspended at \<open>await writeTrades(trades)\<close> (for a batch of
  the recorded \<open>currentBatchSize\<close>), or its promise is settled.
\<close>

record RunLocals =
  l_totalTrades :: int
  l_batchSize :: int
  processedTrades :: int
  startTime :: int

datatype RunStatus = Awaiting int | Resolved | Rejected jserror

text \<open>The calls the service makes on its two collaborators, tagged with the index of
  the invocation of \<open>startIngestion\<close> that makes them.\<close>

datatype 't call = GenerateBatch nat int | WriteTrades nat "'t list"

text \<open>
  The service object: the generator it holds, the flag \<open>isStopped\<close>, and, for
  observation, the events emitted so far, the collaborator calls made so far, every
  invocation of \<open>startIngestion\<close> made so far, and the number of \<open>Date.now()\<close> readings
  taken (\<open>Date.now()\<close> is a stream \<open>clock\<close> of the values it returns).
\<close>

record ('g, 't) TradeIngestionServiceImpl =
  tradeGenerator :: 'g
  isStopped :: bool
  emitted :: "event list"
  calls :: "'t call list"
  runs :: "(RunLocals \<times> RunStatus) list"
  clockReads :: nat

definition newTradeIngestionService :: "'g \<Rightarrow> ('g, 't) TradeIngestionServiceImpl" where
  "newTradeIngestionService g =
     \<lparr>tradeGenerator = g, isStopped = False, emitted = [], calls = [], runs = [], clockReads = 0\<rparr>"

text \<open>The object literal passed with \<open>complete\<close>; \<open>k\<close> is the number of clock readings
  taken before it is built, and it takes two.\<close>

definition completeData :: "(nat \<Rightarrow> int) \<Rightarrow> RunLocals \<Rightarrow> nat \<Rightarrow> ProgressData" where
  "completeData clock r k =
     \<lparr>processed = processedTrades r,
      total = l_totalTrades r,
      percentage = Num 100,
      elapsedMs = clock k - startTime r,
      estimatedRemainingMs = Num 0,
      tradesPerSecond =
        js_div (Num (real_of_int (processedTrades r)))
          (js_div (Num (real_of_int (clock (k + 1) - startTime r))) (Num 1000))\<rparr>"

text \<open>The progress metrics and the object literal passed with \<open>progress\<close>, from the
  locals after the counter has advanced; one clock reading.\<close>

definition progressData :: "(nat \<Rightarrow> int) \<Rightarrow> RunLocals \<Rightarrow> nat \<Rightarrow> ProgressData" where
  "progressData clock r k =
     (let elapsed = clock k - startTime r;
          tps = js_div (Num (real_of_int (processedTrades r)))
                  (js_div (Num (real_of_int elapsed)) (Num 1000));
          est = js_mul
                  (js_div (Num (real_of_int (l_totalTrades r - processedTrades r))) tps)
                  (Num 1000);
          pct = js_mul
                  (js_div (Num (real_of_int (processedTrades r)))
                     (Num (real_of_int (l_totalTrades r))))
                  (Num 100)
      in \<lparr>processed = processedTrades r,
          total = l_totalTrades r,
          percentage = pct,
          elapsedMs = elapsed,
          estimatedRemainingMs = est,
          tradesPerSecond = tps\<rparr>)"

text \<open>
  The code of \<open>startIngestion\<close> from the test of the \<open>while\<close> loop up to the next
  suspension or to the end of the function: either a batch is generated and handed to
  \<open>writeTrades\<close> (the run then awaits), or \<open>generateBatch\<close> throws and the \<open>catch\<close> block
  emits \<open>error\<close> and rethrows, or the loop is left and \<open>complete\<close> is emitted unless the
  flag is set.
\<close>

definition ingestion_loop ::
  "('g, 't) TradeGeneratorService \<Rightarrow> (nat \<Rightarrow> int) \<Rightarrow> nat \<Rightarrow> RunLocals
     \<Rightarrow> ('g, 't) TradeIngestionServiceImpl \<Rightarrow> RunStatus \<times> ('g, 't) TradeIngestionServiceImpl" where
  "ingestion_loop G clock rid r s =
     (if processedTrades r < l_totalTrades r \<and> \<not> isStopped s then
        (let remainingTrades = l_totalTrades r - processedTrades r;
             currentBatchSize = min (l_batchSize r) remainingTrades;
             (res, g') = svc_generateBatch G (tradeGenerator s) currentBatchSize;
             s1 = s\<lparr>tradeGenerator := g',
                    calls := calls s @ [GenerateBatch rid currentBatchSize]\<rparr>
         in case res of
              Inl e \<Rightarrow> (Rejected e, s1\<lparr>emitted := emitted s1 @ [EvError e]\<rparr>)
            | Inr trades \<Rightarrow>
                (Awaiting currentBatchSize, s1\<lparr>calls := calls s1 @ [WriteTrades rid trades]\<rparr>))
      else if \<not> isStopped s then
        (Resolved,
         s\<lparr>emitted := emitted s @ [EvComplete (completeData clock r (clockReads s))],
           clockReads := clockReads s + 2\<rparr>)
      else (Resolved, s))"

text \<open>A call of \<open>startIngestion\<close>: it clears the flag, reads the two configured counts
  and the clock, and runs the loop up to its first suspension.\<close>

definition startIngestion ::
  "('g, 't) TradeGeneratorService \<Rightarrow> (nat \<Rightarrow> int)
     \<Rightarrow> ('g, 't) TradeIngestionServiceImpl \<Rightarrow> ('g, 't) TradeIngestionServiceImpl" where
  "startIngestion G clock s =
     (let s0 = s\<lparr>isStopped := False\<rparr>;
          k = clockReads s0;
          r = \<lparr>l_totalTrades = svc_getTotalTrades G (tradeGenerator s0),
               l_batchSize = svc_getRecommendedBatchSize G (tradeGenerator s0),
               processedTrades = 0,
               startTime = clock k\<rparr>;
          rid = length (runs s0);
          (st, s') = ingestion_loop G clock rid r (s0\<lparr>clockReads := k + 1\<rparr>)
      in s'\<lparr>runs := runs s' @ [(r, st)]\<rparr>)"

text \<open>The continuation of run \<open>rid\<close> when the promise of \<open>writeTrades\<close> it awaits is
  fulfilled: the counter advances, \<open>progress\<close> is emitted, the loop goes on.\<close>

definition writeResolved ::
  "('g, 't) TradeGeneratorService \<Rightarrow> (nat \<Rightarrow> int) \<Rightarrow> nat
     \<Rightarrow> ('g, 't) TradeIngestionServiceImpl \<Rightarrow> ('g, 't) TradeIngestionServiceImpl" where
  "writeResolved G clock rid s =
     (if rid < length (runs s) then
        (case runs s ! rid of
           (r, Awaiting currentBatchSize) \<Rightarrow>
             (let r1 = r\<lparr>processedTrades := processedTrades r + currentBatchSize\<rparr>;
                  s1 = s\<lparr>emitted := emitted s @ [EvProgress (progressData clock r1 (clockReads s))],
                         clockReads := clockReads s + 1\<rparr>;
                  (st, s2) = ingestion_loop G clock rid r1 s1
              in s2\<lparr>runs := (runs s2)[rid := (r1, st)]\<rparr>)
         | _ \<Rightarrow> s)
      else s)"

text \<open>The continuation of run \<open>rid\<close> when the promise it awaits is rejected with \<open>e\<close>:
  the \<open>catch\<close> block emits \<open>error\<close> and rethrows.\<close>

definition writeRejected ::
  "nat \<Rightarrow> jserror \<Rightarrow> ('g, 't) TradeIngestionServiceImpl \<Rightarrow> ('g, 't) TradeIngestionServiceImpl" where
  "writeRejected rid e s =
     (if rid < length (runs s) then
        (case runs s ! rid of
           (r, Awaiting currentBatchSize) \<Rightarrow>
             s\<lparr>emitted := emitted s @ [EvError e], runs := (runs s)[rid := (r, Rejected e)]\<rparr>
         | _ \<Rightarrow> s)
      else s)"

text \<open>\<open>stopIngestion\<close>.\<close>

definition stopIngestion ::
  "('g, 't) TradeIngestionServiceImpl \<Rightarrow> ('g, 't) TradeIngestionServiceImpl" where
  "stopIngestion s = s\<lparr>isStopped := True, emitted := emitted s @ [EvStopped]\<rparr>"

text \<open>
  JavaScript runs one piece of code at a time: a call of \<open>startIngestion\<close> or
  \<open>stopIngestion\<close> by the caller, or the continuation of a suspended run when the sink
  settles its write. A history of the service is a list of such steps.
\<close>

datatype action =
    CallStart
  | CallStop
  | WriteResolved nat
  | WriteRejected nat jserror

fun step ::
  "('g, 't) TradeGeneratorService \<Rightarrow> (nat \<Rightarrow> int)
     \<Rightarrow> ('g, 't) TradeIngestionServiceImpl \<Rightarrow> action \<Rightarrow> ('g, 't) TradeIngestionServiceImpl" where
  "step G clock s CallStart = startIngestion G clock s"
| "step G clock s CallStop = stopIngestion s"
| "step G clock s (WriteResolved rid) = writeResolved G clock rid s"
| "step G clock s (WriteRejected rid e) = writeRejected rid e s"

definition exec ::
  "('g, 't) TradeGeneratorService \<Rightarrow> (nat \<Rightarrow> int)
     \<Rightarrow> ('g, 't) TradeIngestionServiceImpl \<Rightarrow> action list \<Rightarrow> ('g, 't) TradeIngestionServiceImpl" where
  "exec G clock s acts = foldl (step G clock) s acts"

text \<open>Observations on a history.\<close>

fun is_progress :: "event \<Rightarrow> bool" where
  "is_progress (EvProgress _) = True"
| "is_progress _ = False"

fun is_complete :: "event \<Rightarrow> bool" where
  "is_complete (EvComplete _) = True"
| "is_complete _ = False"

fun is_error :: "event \<Rightarrow> bool" where
  "is_error (EvError _) = True"
| "is_error _ = False"

fun is_terminal :: "event \<Rightarrow> bool" where
  "is_terminal (EvProgress _) = False"
| "is_terminal _ = True"

fun write_sizes :: "nat \<Rightarrow> 't call list \<Rightarrow> nat list" where
  "write_sizes rid [] = []"
| "write_sizes rid (WriteTrades r ts # cs) =
     (if r = rid then length ts # write_sizes rid cs else write_sizes rid cs)"
| "write_sizes rid (GenerateBatch r n # cs) = write_sizes rid cs"

fun generate_sizes :: "nat \<Rightarrow> 't call list \<Rightarrow> int list" where
  "generate_sizes rid [] = []"
| "generate_sizes rid (GenerateBatch r n # cs) =
     (if r = rid then n # generate_sizes rid cs else generate_sizes rid cs)"
| "generate_sizes rid (WriteTrades r ts # cs) = generate_sizes rid cs"

definition run_status :: "('g, 't) TradeIngestionServiceImpl \<Rightarrow> nat \<Rightarrow> RunStatus" where
  "run_status s rid = snd (runs s ! rid)"

definition run_processed :: "('g, 't) TradeIngestionServiceImpl \<Rightarrow> nat \<Rightarrow> int" where
  "run_processed s rid = processedTrades (fst (runs s ! rid))"

definition count_stopped :: "event list \<Rightarrow> nat" where
  "count_stopped evs = length (filter (\<lambda>ev. ev = EvStopped) evs)"

definition has_error :: "event list \<Rightarrow> bool" where
  "has_error evs = list_ex is_error evs"

text \<open>A generator that, whenever it returns a batch, returns as many trades as it was
  asked for.\<close>

definition batch_exact :: "('g, 't) TradeGeneratorService \<Rightarrow> bool" where
  "batch_exact G =
     (\<forall>g n ts g'. svc_generateBatch G g n = (Inr ts, g') \<longrightarrow> length ts = nat n)"

text \<open>
  Three invariants of a service on which \<open>startIngestion\<close> was called once. The first
  describes the event log while no \<open>stopIngestion\<close> has been called; the second the
  state while the run awaits its \<open>(j+1)\<close>-th write; the third gives that state in closed
  form when the configured counts are the naturals \<open>T\<close> and \<open>B\<close>.
\<close>

definition single_run_inv :: "('g, 't) TradeIngestionServiceImpl \<Rightarrow> bool" where
  "single_run_inv s =
     (length (runs s) = 1 \<and> \<not> isStopped s \<and>
      (case snd (runs s ! 0) of
         Awaiting c \<Rightarrow> list_all is_progress (emitted s)
       | _ \<Rightarrow> (\<exists>ps t. emitted s = ps @ [t] \<and> list_all is_progress ps
                  \<and> (is_complete t \<or> is_error t))))"

definition awaiting_state ::
  "('g, 't) TradeGeneratorService \<Rightarrow> nat \<Rightarrow> ('g, 't) TradeIngestionServiceImpl \<Rightarrow> int \<Rightarrow> bool" where
  "awaiting_state G j s c =
     (\<exists>r. runs s = [(r, Awaiting c)] \<and> \<not> isStopped s
        \<and> list_all is_progress (emitted s) \<and> length (emitted s) = j
        \<and> length (generate_sizes 0 (calls s)) = Suc j
        \<and> last (generate_sizes 0 (calls s)) = c
        \<and> length (write_sizes 0 (calls s)) = Suc j
        \<and> processedTrades r = sum_list (take j (generate_sizes 0 (calls s)))
        \<and> (batch_exact G \<longrightarrow> write_sizes 0 (calls s) = map nat (generate_sizes 0 (calls s))))"

definition batching_state ::
  "('g, 't) TradeGeneratorService \<Rightarrow> nat \<Rightarrow> nat \<Rightarrow> nat
     \<Rightarrow> ('g, 't) TradeIngestionServiceImpl \<Rightarrow> bool" where
  "batching_state G T B j s =
     (\<exists>r. runs s = [(r, Awaiting (int (min B (T - j * B))))]
        \<and> l_totalTrades r = int T \<and> l_batchSize r = int B \<and> processedTrades r = int (j * B)
        \<and> \<not> isStopped s
        \<and> list_all is_progress (emitted s) \<and> length (emitted s) = j
        \<and> generate_sizes 0 (calls s) = map int (replicate j B @ [min B (T - j * B)])
        \<and> length (write_sizes 0 (calls s)) = Suc j
        \<and> (batch_exact G \<longrightarrow> write_sizes 0 (calls s) = replicate j B @ [min B (T - j * B)]))"

section \<open>Strings\<close>


section \<open>Concrete inputs\<close>

text \<open>
  An environment in which \<open>Math.random()\<close> always returns 0 and \<open>Date.now()\<close> advances by
  one millisecond per reading; a configuration of three trades in batches of two over
  the year 2024; the generator and the service built from them.
\<close>

definition random_zero :: "nat \<Rightarrow> real" where
  "random_zero i = 0"

definition tick_clock :: "nat \<Rightarrow> int" where
  "tick_clock k = int k"

definition sample_config :: TradeGenerationConfig where
  "sample_config =
     \<lparr>totalTrades = 3, batchSize = 2, startDate = 1704067200000,
      endDate = 1735689599000, symbols = [''AAPL'', ''MSFT'']\<rparr>"

definition sample_generator :: TradeGeneratorServiceImpl where
  "sample_generator = newTradeGeneratorService random_zero sample_config"

definition sample_svc :: "(TradeGeneratorServiceImpl, TradeSide Trade) TradeGeneratorService" where
  "sample_svc = TradeGeneratorService_of random_zero"

definition sample_service ::
  "(TradeGeneratorServiceImpl, TradeSide Trade) TradeIngestionServiceImpl" where
  "sample_service = newTradeIngestionService sample_generator"

text \<open>A configuration whose date range ends at 10:00 UTC of the day it starts.\<close>

definition morning_config :: TradeGenerationConfig where
  "morning_config =
     \<lparr>totalTrades = 1, batchSize = 1, startDate = 1704067200000,
      endDate = 1704103200000, symbols = [''AAPL'']\<rparr>"





lemmas eval_defs =
  generateBatch_def generateBatch_loop.simps generateTrade_def newTradeGeneratorService_def
  initializeBaselinePrices_def js_index_def generateRandomPrice_def generateRandomAmount_def
  generateRandomTimestamp_def basePrice_of_def toFixed2_def createTrade_def js_trim_def
  js_whitespace_def newDate_def TimeClip_def MakeDate_def MakeTime_def Day_def HourFromTime_def
  MinFromTime_def SecFromTime_def msFromTime_def msPerDay_def msPerHour_def msPerMinute_def
  msPerSecond_def Let_def random_zero_def tick_clock_def sample_config_def sample_generator_def
  sample_service_def sample_svc_def TradeGeneratorService_of_def
  getTotalTrades_def getRecommendedBatchSize_def exec_def startIngestion_def writeResolved_def
  writeRejected_def stopIngestion_def ingestion_loop_def newTradeIngestionService_def
  run_status_def run_processed_def

section \<open>Trade construction\<close>

text \<open>What \<open>createTrade\<close> accepts: the symbol must not trim to the empty string, neither
  \<open>price <= 0\<close> nor \<open>amount <= 0\<close> may hold, and the timestamp must be a valid date. The
  side is not looked at, and the object returned holds the five arguments.\<close>

lemma createTrade_succeeds_iff:
  "(\<exists>t. createTrade symb sd pr amt ts = Inr t) \<longleftrightarrow>
     js_trim symb \<noteq> [] \<and> \<not> js_le pr (Num 0) \<and> \<not> js_le amt (Num 0) \<and> ts \<noteq> InvalidDate"
  by (auto simp: createTrade_def js_trim_def)

lemma createTrade_fields:
  "createTrade symb sd pr amt ts = Inr t \<Longrightarrow>
     symbol t = symb \<and> side t = sd \<and> price t = pr \<and> amount t = amt \<and> timestamp t = ts"
  by (auto simp: createTrade_def split: if_splits)

text \<open>For numbers other than \<open>NaN\<close> the two tests \<open>price <= 0\<close> and \<open>amount <= 0\<close> fail
  exactly when the price and the amount are greater than zero.\<close>

lemma js_le_zero_iff: "x \<noteq> NaN \<Longrightarrow> js_le x (Num 0) \<longleftrightarrow> \<not> js_gt x (Num 0)"
  by (cases x) auto

lemma createTrade_succeeds_iff_gt:
  assumes "pr \<noteq> NaN" "amt \<noteq> NaN"
  shows "(\<exists>t. createTrade symb sd pr amt ts = Inr t) \<longleftrightarrow>
     js_trim symb \<noteq> [] \<and> js_gt pr (Num 0) \<and> js_gt amt (Num 0) \<and> ts \<noteq> InvalidDate"
  using assms by (simp add: createTrade_succeeds_iff js_le_zero_iff)

text \<open>
  Claim C10 says that \<open>createTrade\<close> succeeds if and only if the symbol is non-empty after
  trimming, \<open>price > 0\<close>, \<open>amount > 0\<close> and the timestamp is valid. The source tests
  \<open>price <= 0\<close>, which is false for \<open>NaN\<close>: a trade whose price is \<open>NaN\<close> is constructed
  although \<open>NaN > 0\<close> does not hold. (The timestamp check next to it does test \<open>isNaN\<close>.)
\<close>

theorem createTrade_accepts_NaN_price:
  "createTrade ''AAPL'' BUY NaN (Num 100) (ValidDate 0)
     = Inr \<lparr>symbol = ''AAPL'', side = BUY, price = NaN, amount = Num 100, timestamp = ValidDate 0\<rparr>
   \<and> \<not> js_gt NaN (Num 0)"
  by (simp add: createTrade_def js_trim_def js_whitespace_def)

section \<open>The generator\<close>

text \<open>
  Claim C9: for every integer \<open>count \<le> 0\<close>, \<open>generateBatch(count)\<close> returns the empty
  array, throws nothing, and leaves the generator (its baseline prices, and the
  random source) as it was.
\<close>

theorem generateBatch_nonpositive:
  "n \<le> 0 \<Longrightarrow> generateBatch R g n = (Inr [], g)"
  by (simp add: generateBatch_def generateBatch_loop.simps)

theorem generateBatch_nonpositive_witness:
  "(- 3 :: int) \<le> 0 \<and> generateBatch random_zero sample_generator (- 3) = (Inr [], sample_generator)"
  using generateBatch_nonpositive [of "- 3" random_zero sample_generator] by simp

text \<open>A batch that is returned has the length asked for.\<close>

lemma generateBatch_loop_length:
  "generateBatch_loop R i n trades g = (Inr ts, g') \<Longrightarrow> length ts = length trades + nat (n - i)"
proof (induction R i n trades g rule: generateBatch_loop.induct)
  case (1 R i n trades g)
  show ?case
  proof (cases "i < n")
    case False
    with "1.prems" show ?thesis by (simp add: generateBatch_loop.simps)
  next
    case True
    obtain res g1 where gt: "generateTrade R g = (res, g1)" by force
    show ?thesis
    proof (cases res)
      case (Inl e)
      with "1.prems" True gt show ?thesis by (simp add: generateBatch_loop.simps)
    next
      case (Inr t)
      with "1.prems" True gt have "generateBatch_loop R (i + 1) n (trades @ [t]) g1 = (Inr ts, g')"
        by (simp add: generateBatch_loop.simps)
      from "1.IH" [OF True gt [symmetric] Inr this] True show ?thesis by simp
    qed
  qed
qed

lemma batch_exact_generator: "batch_exact (TradeGeneratorService_of R)"
  unfolding batch_exact_def TradeGeneratorService_of_def generateBatch_def
  using generateBatch_loop_length [of R 0 _ "[]"] by auto

text \<open>Every trade of a batch that is returned has a configured symbol, a positive price, a
  positive whole amount and a valid timestamp: \<open>createTrade\<close> has checked it.\<close>

lemma js_index_mem: "js_index xs i = Some x \<Longrightarrow> x \<in> set xs"
  by (auto simp: js_index_def split: if_splits)

lemma generateRandomAmount_positive:
  "generateRandomAmount R g = (a, g') \<Longrightarrow> 1 \<le> a"
proof -
  assume A: "generateRandomAmount R g = (a, g')"
  have "0 \<le> (R (randomCalls g))\<^sup>2 * 1000" by simp
  then have "0 \<le> \<lfloor>(R (randomCalls g))\<^sup>2 * 1000\<rfloor>" by simp
  with A show ?thesis by (auto simp: generateRandomAmount_def Let_def)
qed

lemma generateTrade_config:
  "config (snd (generateTrade R g)) = config g"
  by (simp add: generateTrade_def Let_def generateRandomPrice_def generateRandomAmount_def
      generateRandomTimestamp_def split: option.splits prod.splits)

lemma generateTrade_valid:
  assumes "generateTrade R g = (Inr t, g')"
  shows "symbol t \<in> set (symbols (config g)) \<and> (side t = BUY \<or> side t = SELL)
       \<and> js_gt (price t) (Num 0)
       \<and> (\<exists>k. 1 \<le> k \<and> amount t = Num (real_of_int k))
       \<and> timestamp t \<noteq> InvalidDate"
proof -
  let ?n = "randomCalls g"
  let ?i = "\<lfloor>R ?n * real (length (symbols (config g)))\<rfloor>"
  from assms obtain s where s: "js_index (symbols (config g)) ?i = Some s"
    by (cases "js_index (symbols (config g)) ?i") (auto simp: generateTrade_def Let_def)
  obtain pr g3 where P: "generateRandomPrice R (g\<lparr>randomCalls := ?n + 2\<rparr>) s = (pr, g3)" by force
  obtain amt g4 where A: "generateRandomAmount R g3 = (amt, g4)" by force
  obtain ts g5 where T: "generateRandomTimestamp R g4 = (ts, g5)" by force
  let ?sd = "if R (?n + 1) < 1 / 2 then BUY else SELL"
  from assms s P A T have C: "createTrade s ?sd (Num pr) (Num (real_of_int amt)) ts = Inr t"
    by (simp add: generateTrade_def Let_def)
  then have F: "symbol t = s" "side t = ?sd" "price t = Num pr" "amount t = Num (real_of_int amt)"
      "timestamp t = ts"
    and V: "\<not> js_le (Num pr) (Num 0)" "ts \<noteq> InvalidDate"
    by (auto simp: createTrade_def split: if_splits)
  from generateRandomAmount_positive [OF A] have "1 \<le> amt" .
  with F V js_index_mem [OF s] show ?thesis by auto
qed

lemma generateBatch_loop_valid:
  assumes "generateBatch_loop R i n trades g = (Inr ts, g')"
    and "\<forall>t \<in> set trades. P t"
    and "\<And>R g t g'. config g = cfg \<Longrightarrow> generateTrade R g = (Inr t, g') \<Longrightarrow> P t"
    and "config g = cfg"
  shows "\<forall>t \<in> set ts. P t"
  using assms(1,2,4)
proof (induction R i n trades g rule: generateBatch_loop.induct)
  case (1 R i n trades g)
  show ?case
  proof (cases "i < n")
    case False
    with "1.prems" show ?thesis by (simp add: generateBatch_loop.simps)
  next
    case True
    obtain res g1 where gt: "generateTrade R g = (res, g1)" by force
    show ?thesis
    proof (cases res)
      case (Inl e)
      with "1.prems" True gt show ?thesis by (simp add: generateBatch_loop.simps)
    next
      case (Inr t)
      with "1.prems" True gt have L: "generateBatch_loop R (i + 1) n (trades @ [t]) g1 = (Inr ts, g')"
        by (simp add: generateBatch_loop.simps)
      have Pt: "P t" using assms(3) [OF "1.prems"(3)] gt Inr by blast
      have c1: "config g1 = cfg" using generateTrade_config [of R g] gt "1.prems"(3) by simp
      from "1.IH" [OF True gt [symmetric] Inr L _ c1] "1.prems"(2) Pt show ?thesis by simp
    qed
  qed
qed

lemma generateBatch_trades_valid:
  assumes "generateBatch R g n = (Inr ts, g')"
  shows "length ts = nat n
       \<and> (\<forall>t \<in> set ts. symbol t \<in> set (symbols (config g)) \<and> (side t = BUY \<or> side t = SELL)
             \<and> js_gt (price t) (Num 0)
             \<and> (\<exists>k. 1 \<le> k \<and> amount t = Num (real_of_int k))
             \<and> timestamp t \<noteq> InvalidDate)"
proof -
  let ?P = "\<lambda>t. symbol t \<in> set (symbols (config g)) \<and> (side t = BUY \<or> side t = SELL)
             \<and> js_gt (price t) (Num 0)
             \<and> (\<exists>k. 1 \<le> k \<and> amount t = Num (real_of_int k))
             \<and> timestamp t \<noteq> InvalidDate"
  have "\<forall>t \<in> set ts. ?P t"
  proof (rule generateBatch_loop_valid [where P = ?P and cfg = "config g"])
    show "generateBatch_loop R 0 n [] g = (Inr ts, g')" using assms by (simp add: generateBatch_def)
    show "\<forall>t \<in> set []. ?P t" by simp
    show "?P t" if "config h = config g" "generateTrade R' h = (Inr t, h')" for R' h t h'
      using generateTrade_valid [OF that(2)] that(1) by simp
    show "config g = config g" ..
  qed
  moreover have "length ts = nat n"
    using generateBatch_loop_length [of R 0 n "[]" g ts g'] assms by (simp add: generateBatch_def)
  ultimately show ?thesis by blast
qed

text \<open>A batch is not always returned: with an empty string among the symbols,
  \<open>createTrade\<close> throws as soon as that symbol is drawn.\<close>

lemma generateBatch_blank_symbol_throws:
  "fst (generateBatch random_zero
          (newTradeGeneratorService random_zero
             \<lparr>totalTrades = 1, batchSize = 1, startDate = 1704067200000,
               endDate = 1735689599000, symbols = ['''']\<rparr>) 1)
     = Inl (JsError ''Symbol is required'')"
  by (simp add: eval_defs)

text \<open>
  Claim C6 says that every trade of \<open>generateBatch(n)\<close> has its timestamp within
  \<open>[startDate, endDate]\<close> whenever \<open>startDate \<le> endDate\<close>. \<open>generateRandomTimestamp\<close>
  (documented as returning a timestamp within the configured range) draws a time in
  the range and then overwrites its hour with one of 14 to 20 UTC. With a range from
  2024-01-01T00:00:00Z to 2024-01-01T10:00:00Z and every draw 0, the one trade of
  \<open>generateBatch(1)\<close> is stamped 2024-01-01T14:00:00Z, after \<open>endDate\<close>.
\<close>

theorem generateBatch_timestamp_outside_range:
  "fst (generateBatch random_zero (newTradeGeneratorService random_zero morning_config) 1)
     = Inr [\<lparr>symbol = ''AAPL'', side = BUY, price = Num (95 / 2), amount = Num 1,
             timestamp = ValidDate 1704117600000\<rparr>]
   \<and> startDate morning_config \<le> endDate morning_config
   \<and> endDate morning_config < 1704117600000"
  by (simp add: eval_defs morning_config_def)

section \<open>The repository\<close>






text \<open>The integer field drops the fraction of an amount that is not whole.\<close>

lemma fractional_amount_floored:
  "tradeToPoint \<lparr>symbol = ''AAPL'', side = BUY, price = Num (601 / 4), amount = Num (3 / 2),
       timestamp = ValidDate 0\<rparr>
     = Inr \<lparr>point_name = ''trade'',
            point_tags = [''symbol'' \<mapsto> ''AAPL'', ''side'' \<mapsto> ''buy''],
            point_fields = [''price'' \<mapsto> FloatField (601 / 4), ''amount'' \<mapsto> IntField 1],
            point_time = Some (ValidDate 0)\<rparr>"
  by (simp add: tradeToPoint_def Point_timestamp_def tag_def newPoint_def)




section \<open>The ingestion service: steps and histories\<close>

lemma exec_Nil [simp]: "exec G clock s [] = s"
  by (simp add: exec_def)

lemma exec_Cons: "exec G clock s (a # acts) = exec G clock (step G clock s a) acts"
  by (simp add: exec_def)

lemma exec_append: "exec G clock s (xs @ ys) = exec G clock (exec G clock s xs) ys"
  by (simp add: exec_def)

lemma exec_snoc: "exec G clock s (xs @ [a]) = step G clock (exec G clock s xs) a"
  by (simp add: exec_def)

lemma exec_start_resolves_Suc:
  "exec G clock s (CallStart # replicate (Suc j) (WriteResolved 0)) =
     writeResolved G clock 0 (exec G clock s (CallStart # replicate j (WriteResolved 0)))"
proof -
  have "CallStart # replicate (Suc j) (WriteResolved 0) = (CallStart # replicate j (WriteResolved 0)) @ [WriteResolved 0]"
    by (simp add: replicate_append_same)
  then show ?thesis by (simp only: exec_snoc step.simps)
qed

text \<open>The four ways through the loop.\<close>

lemma loop_stopped:
  "isStopped s \<Longrightarrow> ingestion_loop G clock rid r s = (Resolved, s)"
  by (simp add: ingestion_loop_def)

lemma loop_exit:
  "\<not> processedTrades r < l_totalTrades r \<Longrightarrow> \<not> isStopped s \<Longrightarrow>
   ingestion_loop G clock rid r s =
     (Resolved, s\<lparr>emitted := emitted s @ [EvComplete (completeData clock r (clockReads s))],
                  clockReads := clockReads s + 2\<rparr>)"
  by (simp add: ingestion_loop_def)

lemma loop_batch:
  "processedTrades r < l_totalTrades r \<Longrightarrow> \<not> isStopped s \<Longrightarrow>
   svc_generateBatch G (tradeGenerator s) (min (l_batchSize r) (l_totalTrades r - processedTrades r)) = (Inr ts, g') \<Longrightarrow>
   ingestion_loop G clock rid r s =
     (Awaiting (min (l_batchSize r) (l_totalTrades r - processedTrades r)),
      s\<lparr>tradeGenerator := g',
        calls := calls s @ [GenerateBatch rid (min (l_batchSize r) (l_totalTrades r - processedTrades r)),
                            WriteTrades rid ts]\<rparr>)"
  by (simp add: ingestion_loop_def Let_def)

lemma loop_throw:
  "processedTrades r < l_totalTrades r \<Longrightarrow> \<not> isStopped s \<Longrightarrow>
   svc_generateBatch G (tradeGenerator s) (min (l_batchSize r) (l_totalTrades r - processedTrades r)) = (Inl e, g') \<Longrightarrow>
   ingestion_loop G clock rid r s =
     (Rejected e,
      s\<lparr>tradeGenerator := g',
        calls := calls s @ [GenerateBatch rid (min (l_batchSize r) (l_totalTrades r - processedTrades r))],
        emitted := emitted s @ [EvError e]\<rparr>)"
  by (simp add: ingestion_loop_def Let_def)

lemma loop_frame:
  assumes "ingestion_loop G clock rid r s = (st, s')"
  shows "isStopped s' = isStopped s" "runs s' = runs s"
  using assms by (auto simp: ingestion_loop_def Let_def split: if_splits prod.splits sum.splits)

lemma loop_events:
  assumes "ingestion_loop G clock rid r s = (st, s')"
  shows "(case st of
            Awaiting c \<Rightarrow> emitted s' = emitted s
          | Resolved \<Rightarrow> (if isStopped s then emitted s' = emitted s
                          else emitted s' = emitted s @ [EvComplete (completeData clock r (clockReads s))])
          | Rejected e \<Rightarrow> emitted s' = emitted s @ [EvError e])"
  using assms by (auto simp: ingestion_loop_def Let_def split: if_splits prod.splits sum.splits)

lemma loop_emitted_prefix:
  assumes "ingestion_loop G clock rid r s = (st, s')"
  shows "\<exists>evs. emitted s' = emitted s @ evs"
  using loop_events [OF assms] by (cases st) (auto split: if_splits)

lemma loop_awaiting:
  assumes "ingestion_loop G clock rid r s = (Awaiting c, s')"
  shows "\<exists>ts g'. svc_generateBatch G (tradeGenerator s) c = (Inr ts, g')
          \<and> c = min (l_batchSize r) (l_totalTrades r - processedTrades r)
          \<and> processedTrades r < l_totalTrades r
          \<and> s' = s\<lparr>tradeGenerator := g', calls := calls s @ [GenerateBatch rid c, WriteTrades rid ts]\<rparr>"
  using assms by (auto simp: ingestion_loop_def Let_def split: if_splits prod.splits sum.splits)

lemma loop_rejected:
  assumes "ingestion_loop G clock rid r s = (Rejected e, s')"
  shows "fst (svc_generateBatch G (tradeGenerator s) (min (l_batchSize r) (l_totalTrades r - processedTrades r))) = Inl e"
  using assms by (auto simp: ingestion_loop_def Let_def split: if_splits prod.splits sum.splits)

lemma loop_count_stopped:
  assumes "ingestion_loop G clock rid r s = (st, s')"
  shows "count_stopped (emitted s') = count_stopped (emitted s)"
  using loop_events [OF assms] by (cases st) (auto simp: count_stopped_def split: if_splits)

lemma write_sizes_append [simp]:
  "write_sizes rid (xs @ ys) = write_sizes rid xs @ write_sizes rid ys"
  by (induction rid xs rule: write_sizes.induct) simp_all

lemma generate_sizes_append [simp]:
  "generate_sizes rid (xs @ ys) = generate_sizes rid xs @ generate_sizes rid ys"
  by (induction rid xs rule: generate_sizes.induct) simp_all

text \<open>Events are only ever appended, so an \<open>error\<close> event once emitted stays.\<close>

lemma step_emitted_prefix: "\<exists>evs. emitted (step G clock s a) = emitted s @ evs"
proof (cases a)
  case CallStart
  obtain st s' where L: "ingestion_loop G clock (length (runs s))
       \<lparr>l_totalTrades = svc_getTotalTrades G (tradeGenerator s),
        l_batchSize = svc_getRecommendedBatchSize G (tradeGenerator s),
        processedTrades = 0, startTime = clock (clockReads s)\<rparr>
       (s\<lparr>isStopped := False, clockReads := clockReads s + 1\<rparr>) = (st, s')"
    by force
  from loop_emitted_prefix [OF L] L CallStart show ?thesis
    by (auto simp: startIngestion_def Let_def)
next
  case CallStop
  then show ?thesis by (simp add: stopIngestion_def)
next
  case (WriteResolved rid)
  show ?thesis
  proof (cases "rid < length (runs s)")
    case False
    with WriteResolved show ?thesis by (simp add: writeResolved_def)
  next
    case True
    obtain r st0 where R: "runs s ! rid = (r, st0)" by force
    show ?thesis
    proof (cases st0)
      case (Awaiting c)
      obtain st s' where L: "ingestion_loop G clock rid (r\<lparr>processedTrades := processedTrades r + c\<rparr>)
          (s\<lparr>emitted := emitted s @ [EvProgress (progressData clock (r\<lparr>processedTrades := processedTrades r + c\<rparr>) (clockReads s))],
             clockReads := clockReads s + 1\<rparr>) = (st, s')"
        by force
      from loop_emitted_prefix [OF L] L WriteResolved True R Awaiting show ?thesis
        by (auto simp: writeResolved_def Let_def)
    qed (use WriteResolved True R in \<open>simp_all add: writeResolved_def\<close>)
  qed
next
  case (WriteRejected rid e)
  then show ?thesis
    by (simp add: writeRejected_def split: prod.splits RunStatus.splits)
qed

lemma step_has_error: "has_error (emitted s) \<Longrightarrow> has_error (emitted (step G clock s a))"
  using step_emitted_prefix [of G clock s a] by (auto simp: has_error_def)

text \<open>Once the flag is set and as long as \<open>startIngestion\<close> is not called again, no step
  calls a collaborator or emits \<open>complete\<close>.\<close>

lemma step_stopped:
  assumes "isStopped s" "a \<noteq> CallStart"
  shows "isStopped (step G clock s a)"
    and "calls (step G clock s a) = calls s"
    and "filter is_complete (emitted (step G clock s a)) = filter is_complete (emitted s)"
  using assms
  by (cases a; simp add: stopIngestion_def writeResolved_def writeRejected_def loop_stopped Let_def
        split: prod.splits RunStatus.splits)+

lemma exec_stopped:
  assumes "isStopped s" "CallStart \<notin> set acts"
  shows "isStopped (exec G clock s acts) \<and> calls (exec G clock s acts) = calls s
         \<and> filter is_complete (emitted (exec G clock s acts)) = filter is_complete (emitted s)"
  using assms
proof (induction acts arbitrary: s)
  case Nil
  then show ?case by simp
next
  case (Cons a acts)
  then have a: "a \<noteq> CallStart" and r: "CallStart \<notin> set acts" by auto
  from step_stopped [OF Cons.prems(1) a, of G clock] Cons.IH [OF _ r, of "step G clock s a"]
  show ?case by (simp add: exec_Cons)
qed

text \<open>Only \<open>stopIngestion\<close> emits \<open>stopped\<close>, once per call.\<close>

lemma step_count_stopped:
  "count_stopped (emitted (step G clock s a)) =
     count_stopped (emitted s) + (if a = CallStop then 1 else 0)"
proof (cases a)
  case CallStart
  obtain st s' where L: "ingestion_loop G clock (length (runs s))
       \<lparr>l_totalTrades = svc_getTotalTrades G (tradeGenerator s),
        l_batchSize = svc_getRecommendedBatchSize G (tradeGenerator s),
        processedTrades = 0, startTime = clock (clockReads s)\<rparr>
       (s\<lparr>isStopped := False, clockReads := clockReads s + 1\<rparr>) = (st, s')"
    by force
  from loop_count_stopped [OF L] L CallStart show ?thesis
    by (simp add: startIngestion_def Let_def)
next
  case CallStop
  then show ?thesis by (simp add: stopIngestion_def count_stopped_def)
next
  case (WriteResolved rid)
  show ?thesis
  proof (cases "rid < length (runs s)")
    case False
    with WriteResolved show ?thesis by (simp add: writeResolved_def)
  next
    case True
    obtain r st0 where R: "runs s ! rid = (r, st0)" by force
    show ?thesis
    proof (cases st0)
      case (Awaiting c)
      obtain st s' where L: "ingestion_loop G clock rid (r\<lparr>processedTrades := processedTrades r + c\<rparr>)
          (s\<lparr>emitted := emitted s @ [EvProgress (progressData clock (r\<lparr>processedTrades := processedTrades r + c\<rparr>) (clockReads s))],
             clockReads := clockReads s + 1\<rparr>) = (st, s')"
        by force
      from loop_count_stopped [OF L] L WriteResolved True R Awaiting show ?thesis
        by (simp add: writeResolved_def Let_def count_stopped_def)
    qed (use WriteResolved True R in \<open>simp_all add: writeResolved_def\<close>)
  qed
next
  case (WriteRejected rid e)
  then show ?thesis
    by (simp add: writeRejected_def count_stopped_def split: prod.splits RunStatus.splits)
qed

lemma exec_count_stopped:
  "count_stopped (emitted (exec G clock s acts)) = count_stopped (emitted s) + count_list acts CallStop"
  by (induction acts arbitrary: s) (simp_all add: step_count_stopped exec_Cons)

text \<open>A single run on which \<open>stopIngestion\<close> is never called.\<close>

lemma start_inv: "single_run_inv (startIngestion G clock (newTradeIngestionService g))"
proof -
  let ?s0 = "newTradeIngestionService g :: ('a, 'b) TradeIngestionServiceImpl"
  let ?r = "\<lparr>l_totalTrades = svc_getTotalTrades G g,
        l_batchSize = svc_getRecommendedBatchSize G g,
        processedTrades = 0, startTime = clock 0\<rparr>"
  obtain st s' where L: "ingestion_loop G clock 0 ?r (?s0\<lparr>isStopped := False, clockReads := 1\<rparr>) = (st, s')"
    by force
  have S: "startIngestion G clock ?s0 = s'\<lparr>runs := runs s' @ [(?r, st)]\<rparr>"
    using L by (simp add: startIngestion_def newTradeIngestionService_def Let_def)
  from loop_frame [OF L] loop_events [OF L] show ?thesis
    unfolding S single_run_inv_def
    by (cases st) (auto simp: newTradeIngestionService_def)
qed

lemma step_inv:
  assumes "single_run_inv s" "a \<noteq> CallStart" "a \<noteq> CallStop"
  shows "single_run_inv (step G clock s a)"
proof (cases a)
  case (WriteResolved rid)
  show ?thesis
  proof (cases "rid < length (runs s)")
    case False
    with WriteResolved assms(1) show ?thesis by (simp add: writeResolved_def)
  next
    case True
    with assms(1) have rid: "rid = 0" by (simp add: single_run_inv_def)
    obtain r st0 where R: "runs s ! 0 = (r, st0)" by force
    show ?thesis
    proof (cases st0)
      case (Awaiting c)
      let ?r1 = "r\<lparr>processedTrades := processedTrades r + c\<rparr>"
      let ?s1 = "s\<lparr>emitted := emitted s @ [EvProgress (progressData clock ?r1 (clockReads s))],
             clockReads := clockReads s + 1\<rparr>"
      obtain st s' where L: "ingestion_loop G clock 0 ?r1 ?s1 = (st, s')"
        by force
      have S: "step G clock s a = s'\<lparr>runs := (runs s')[0 := (?r1, st)]\<rparr>"
        using L WriteResolved True R Awaiting rid by (simp add: writeResolved_def Let_def)
      have P: "list_all is_progress (emitted s)"
        using assms(1) R Awaiting by (simp add: single_run_inv_def)
      from loop_frame [OF L] loop_events [OF L] assms(1) P show ?thesis
        unfolding S single_run_inv_def
        by (cases st) (auto simp: length_Suc_conv)
    qed (use WriteResolved True R rid assms(1) in \<open>simp_all add: writeResolved_def\<close>)
  qed
next
  case (WriteRejected rid e)
  show ?thesis
  proof (cases "rid < length (runs s)")
    case False
    with WriteRejected assms(1) show ?thesis by (simp add: writeRejected_def)
  next
    case True
    with assms(1) have rid: "rid = 0" by (simp add: single_run_inv_def)
    obtain r st0 where R: "runs s ! 0 = (r, st0)" by force
    show ?thesis
      using WriteRejected True R rid assms(1)
      by (cases st0) (auto simp: writeRejected_def single_run_inv_def)
  qed
qed (use assms in simp_all)

lemma exec_inv:
  assumes "single_run_inv s" "CallStart \<notin> set acts" "CallStop \<notin> set acts"
  shows "single_run_inv (exec G clock s acts)"
  using assms
proof (induction acts arbitrary: s)
  case Nil
  then show ?case by simp
next
  case (Cons a acts)
  then have "single_run_inv (step G clock s a)" by (intro step_inv) auto
  with Cons show ?case by (simp add: exec_Cons)
qed

lemma start_resolves_inv:
  "single_run_inv (exec G clock (newTradeIngestionService g) (CallStart # replicate j (WriteResolved 0)))"
proof -
  have "single_run_inv (exec G clock (startIngestion G clock (newTradeIngestionService g)) (replicate j (WriteResolved 0)))"
    by (rule exec_inv [OF start_inv]) simp_all
  then show ?thesis by (simp add: exec_Cons)
qed

text \<open>A single run whose writes are fulfilled one after the other.\<close>

lemma writeResolved_sole:
  assumes "runs s = [(r, Awaiting c)]"
    and "ingestion_loop G clock 0 (r\<lparr>processedTrades := processedTrades r + c\<rparr>)
          (s\<lparr>emitted := emitted s @ [EvProgress (progressData clock (r\<lparr>processedTrades := processedTrades r + c\<rparr>) (clockReads s))],
             clockReads := clockReads s + 1\<rparr>) = (st, s')"
  shows "writeResolved G clock 0 s = s'\<lparr>runs := [(r\<lparr>processedTrades := processedTrades r + c\<rparr>, st)]\<rparr>"
  using assms loop_frame(2) [OF assms(2)] by (simp add: writeResolved_def Let_def)

lemma writeResolved_settled:
  assumes "rid < length (runs s)" "\<forall>c. snd (runs s ! rid) \<noteq> Awaiting c"
  shows "writeResolved G clock rid s = s"
  using assms by (auto simp: writeResolved_def split: prod.splits RunStatus.splits)

lemma start_awaiting:
  assumes "run_status (startIngestion G clock (newTradeIngestionService g)) 0 = Awaiting c"
  shows "awaiting_state G 0 (startIngestion G clock (newTradeIngestionService g)) c"
proof -
  let ?s0 = "newTradeIngestionService g :: ('a, 'b) TradeIngestionServiceImpl"
  let ?r = "\<lparr>l_totalTrades = svc_getTotalTrades G g,
        l_batchSize = svc_getRecommendedBatchSize G g,
        processedTrades = 0, startTime = clock 0\<rparr>"
  obtain st s' where L: "ingestion_loop G clock 0 ?r (?s0\<lparr>isStopped := False, clockReads := 1\<rparr>) = (st, s')"
    by force
  have S: "startIngestion G clock ?s0 = s'\<lparr>runs := runs s' @ [(?r, st)]\<rparr>"
    using L by (simp add: startIngestion_def newTradeIngestionService_def Let_def)
  have R: "runs s' = []" using loop_frame(2) [OF L] by (simp add: newTradeIngestionService_def)
  from assms have st: "st = Awaiting c" unfolding S by (simp add: run_status_def R)
  from loop_awaiting [OF L [unfolded st]] obtain ts g' where
    g: "svc_generateBatch G (tradeGenerator (?s0\<lparr>isStopped := False, clockReads := 1\<rparr>)) c = (Inr ts, g')" and
    s': "s' = (?s0\<lparr>isStopped := False, clockReads := 1\<rparr>)\<lparr>tradeGenerator := g', calls := calls (?s0\<lparr>isStopped := False, clockReads := 1\<rparr>) @ [GenerateBatch 0 c, WriteTrades 0 ts]\<rparr>"
    by blast
  have "batch_exact G \<Longrightarrow> length ts = nat c" using g by (auto simp: batch_exact_def)
  then show ?thesis
    unfolding S awaiting_state_def st
    by (simp add: s' newTradeIngestionService_def)
qed

lemma resolved_awaiting:
  assumes A: "awaiting_state G j s c"
    and N: "run_status (writeResolved G clock 0 s) 0 = Awaiting c'"
  shows "awaiting_state G (Suc j) (writeResolved G clock 0 s) c'"
proof -
  from A obtain r where r: "runs s = [(r, Awaiting c)]" and ns: "\<not> isStopped s"
    and pg: "list_all is_progress (emitted s)" and le: "length (emitted s) = j"
    and lg: "length (generate_sizes 0 (calls s)) = Suc j"
    and la: "last (generate_sizes 0 (calls s)) = c"
    and lw: "length (write_sizes 0 (calls s)) = Suc j"
    and pr: "processedTrades r = sum_list (take j (generate_sizes 0 (calls s)))"
    and bx: "batch_exact G \<longrightarrow> write_sizes 0 (calls s) = map nat (generate_sizes 0 (calls s))"
    unfolding awaiting_state_def by blast
  let ?r1 = "r\<lparr>processedTrades := processedTrades r + c\<rparr>"
  let ?s1 = "s\<lparr>emitted := emitted s @ [EvProgress (progressData clock ?r1 (clockReads s))],
             clockReads := clockReads s + 1\<rparr>"
  obtain st s' where L: "ingestion_loop G clock 0 ?r1 ?s1 = (st, s')" by force
  have S: "writeResolved G clock 0 s = s'\<lparr>runs := [(?r1, st)]\<rparr>"
    by (rule writeResolved_sole [OF r L])
  from N have st: "st = Awaiting c'" unfolding S by (simp add: run_status_def)
  from loop_awaiting [OF L [unfolded st]] obtain ts g' where
    g: "svc_generateBatch G (tradeGenerator ?s1) c' = (Inr ts, g')" and
    s': "s' = ?s1\<lparr>tradeGenerator := g', calls := calls ?s1 @ [GenerateBatch 0 c', WriteTrades 0 ts]\<rparr>"
    by blast
  have len: "batch_exact G \<Longrightarrow> length ts = nat c'" using g by (auto simp: batch_exact_def)
  have gs: "generate_sizes 0 (calls s) = butlast (generate_sizes 0 (calls s)) @ [c]"
    using lg la by (metis append_butlast_last_id length_0_conv nat.distinct(1))
  have tk: "take j (generate_sizes 0 (calls s)) = butlast (generate_sizes 0 (calls s))"
    using lg by (simp add: butlast_conv_take)
  have sm: "sum_list (generate_sizes 0 (calls s)) = processedTrades r + c"
    using gs tk pr by (metis sum_list.append sum_list.Cons sum_list.Nil add.right_neutral)
  show ?thesis
    unfolding S awaiting_state_def st
    using ns pg le lg lw bx len sm
    by (simp add: s')
qed

lemma awaiting_chain:
  "run_status (exec G clock (newTradeIngestionService g) (CallStart # replicate j (WriteResolved 0))) 0 = Awaiting c
   \<Longrightarrow> awaiting_state G j (exec G clock (newTradeIngestionService g) (CallStart # replicate j (WriteResolved 0))) c"
proof (induction j arbitrary: c)
  case 0
  then show ?case using start_awaiting [of G clock g c] by (simp add: exec_Cons)
next
  case (Suc j)
  let ?s = "exec G clock (newTradeIngestionService g) (CallStart # replicate j (WriteResolved 0))"
  have E: "exec G clock (newTradeIngestionService g) (CallStart # replicate (Suc j) (WriteResolved 0)) = writeResolved G clock 0 ?s"
    by (rule exec_start_resolves_Suc)
  have len: "length (runs ?s) = 1"
    using start_resolves_inv [of G clock g j] by (simp add: single_run_inv_def)
  have "\<exists>c0. snd (runs ?s ! 0) = Awaiting c0"
  proof (rule ccontr)
    assume "\<not> ?thesis"
    then have "writeResolved G clock 0 ?s = ?s"
      using len by (intro writeResolved_settled) auto
    with Suc.prems E \<open>\<not> (\<exists>c0. snd (runs ?s ! 0) = Awaiting c0)\<close> show False
      by (simp add: run_status_def)
  qed
  then obtain c0 where "run_status ?s 0 = Awaiting c0" by (auto simp: run_status_def)
  then have "awaiting_state G j ?s c0" by (rule Suc.IH)
  from resolved_awaiting [OF this, of clock c] Suc.prems show ?case
    unfolding E by simp
qed

lemma exec_stops:
  "exec G clock s (replicate m CallStop) = s' \<Longrightarrow>
     runs s' = runs s \<and> calls s' = calls s \<and> emitted s' = emitted s @ replicate m EvStopped"
proof (induction m arbitrary: s)
  case 0
  then show ?case by simp
next
  case (Suc m)
  from Suc.prems have "exec G clock (stopIngestion s) (replicate m CallStop) = s'" by (simp add: exec_Cons)
  from Suc.IH [OF this] show ?case
    by (simp add: stopIngestion_def replicate_append_same)
qed

lemma filter_error_progress: "list_all is_progress evs \<Longrightarrow> filter is_error evs = []"
  by (induction evs) (auto elim: is_progress.elims)

lemma filter_progress_all: "list_all is_progress evs \<Longrightarrow> filter is_progress evs = evs"
  by (induction evs) auto

text \<open>The same run in closed form, for counts \<open>T\<close> and \<open>B\<close>.\<close>

lemma min_int_diff:
  "x \<le> T \<Longrightarrow> min (int B) (int T - int x) = int (min B (T - x))"
  unfolding min_def by (auto simp: of_nat_diff)

lemma batch_exactD:
  "batch_exact G \<Longrightarrow> svc_generateBatch G g (int n) = (Inr ts, g') \<Longrightarrow> length ts = n"
  unfolding batch_exact_def by (metis nat_int)

lemma batching_start:
  assumes "0 < T" "svc_getTotalTrades G g = int T" "svc_getRecommendedBatchSize G g = int B"
  shows "has_error (emitted (startIngestion G clock (newTradeIngestionService g)))
       \<or> batching_state G T B 0 (startIngestion G clock (newTradeIngestionService g))"
proof -
  let ?s0 = "(newTradeIngestionService g :: ('a, 'b) TradeIngestionServiceImpl)\<lparr>isStopped := False, clockReads := 1\<rparr>"
  let ?r = "\<lparr>l_totalTrades = int T, l_batchSize = int B, processedTrades = 0, startTime = clock 0\<rparr>"
  let ?c = "int (min B T)"
  have c: "min (l_batchSize ?r) (l_totalTrades ?r - processedTrades ?r) = ?c" by simp
  have lt: "processedTrades ?r < l_totalTrades ?r" using assms(1) by simp
  have ns: "\<not> isStopped ?s0" by simp
  obtain res g' where g: "svc_generateBatch G (tradeGenerator ?s0) ?c = (res, g')" by force
  show ?thesis
  proof (cases res)
    case (Inl e)
    from loop_throw [OF lt ns, of G e g' clock 0] g Inl
    have "ingestion_loop G clock 0 ?r ?s0 = (Rejected e,
        ?s0\<lparr>tradeGenerator := g', calls := calls ?s0 @ [GenerateBatch 0 ?c], emitted := emitted ?s0 @ [EvError e]\<rparr>)"
      by (simp only: c)
    then have "has_error (emitted (startIngestion G clock (newTradeIngestionService g)))"
      using assms(2,3) by (simp add: startIngestion_def newTradeIngestionService_def Let_def has_error_def)
    then show ?thesis ..
  next
    case (Inr ts)
    from loop_batch [OF lt ns, of G ts g' clock 0] g Inr
    have L: "ingestion_loop G clock 0 ?r ?s0 = (Awaiting ?c,
        ?s0\<lparr>tradeGenerator := g', calls := calls ?s0 @ [GenerateBatch 0 ?c, WriteTrades 0 ts]\<rparr>)"
      by (simp only: c)
    have len: "batch_exact G \<Longrightarrow> length ts = min B T"
      using g Inr by (auto dest: batch_exactD)
    have "batching_state G T B 0 (startIngestion G clock (newTradeIngestionService g))"
      using assms(2,3) L len
      by (simp add: startIngestion_def newTradeIngestionService_def Let_def batching_state_def)
    then show ?thesis ..
  qed
qed

lemma batching_step:
  assumes lt: "Suc j * B < T" and A: "batching_state G T B j s"
  shows "has_error (emitted (writeResolved G clock 0 s))
       \<or> batching_state G T B (Suc j) (writeResolved G clock 0 s)"
proof -
  from lt have jb: "j * B + B < T" by simp
  then have mn: "min B (T - j * B) = B" by simp
  from A obtain r where r: "runs s = [(r, Awaiting (int B))]"
    and tt: "l_totalTrades r = int T" and bb: "l_batchSize r = int B"
    and pp: "processedTrades r = int (j * B)" and ns: "\<not> isStopped s"
    and pg: "list_all is_progress (emitted s)" and le: "length (emitted s) = j"
    and gz: "generate_sizes 0 (calls s) = map int (replicate j B @ [B])"
    and lw: "length (write_sizes 0 (calls s)) = Suc j"
    and bx: "batch_exact G \<longrightarrow> write_sizes 0 (calls s) = replicate j B @ [B]"
    unfolding batching_state_def mn by blast
  define r1 where "r1 = r\<lparr>processedTrades := processedTrades r + int B\<rparr>"
  define s1 where "s1 = s\<lparr>emitted := emitted s @ [EvProgress (progressData clock r1 (clockReads s))],
             clockReads := clockReads s + 1\<rparr>"
  define c where "c = int (min B (T - Suc j * B))"
  have p1: "processedTrades r1 = int (Suc j * B)" by (simp add: r1_def pp)
  have t1: "l_totalTrades r1 = int T" "l_batchSize r1 = int B" by (simp_all add: r1_def tt bb)
  have cc: "min (l_batchSize r1) (l_totalTrades r1 - processedTrades r1) = c"
    unfolding p1 t1 c_def using lt by (intro min_int_diff) simp
  have lt1: "processedTrades r1 < l_totalTrades r1" unfolding p1 t1 using lt by (simp only: of_nat_less_iff)
  have ns1: "\<not> isStopped s1" using ns by (simp add: s1_def)
  obtain res g' where g: "svc_generateBatch G (tradeGenerator s1) c = (res, g')" by force
  show ?thesis
  proof (cases res)
    case (Inl e)
    from loop_throw [OF lt1 ns1, of G e g' clock 0] g Inl
    have L: "ingestion_loop G clock 0 r1 s1 = (Rejected e,
        s1\<lparr>tradeGenerator := g', calls := calls s1 @ [GenerateBatch 0 c], emitted := emitted s1 @ [EvError e]\<rparr>)"
      by (simp only: cc)
    have "writeResolved G clock 0 s =
        (s1\<lparr>tradeGenerator := g', calls := calls s1 @ [GenerateBatch 0 c], emitted := emitted s1 @ [EvError e]\<rparr>)\<lparr>runs := [(r1, Rejected e)]\<rparr>"
      using writeResolved_sole [OF r, of G clock] L unfolding r1_def s1_def by simp
    then have "has_error (emitted (writeResolved G clock 0 s))" by (simp add: has_error_def)
    then show ?thesis ..
  next
    case (Inr ts)
    from loop_batch [OF lt1 ns1, of G ts g' clock 0] g Inr
    have L: "ingestion_loop G clock 0 r1 s1 = (Awaiting c,
        s1\<lparr>tradeGenerator := g', calls := calls s1 @ [GenerateBatch 0 c, WriteTrades 0 ts]\<rparr>)"
      by (simp only: cc)
    have W: "writeResolved G clock 0 s =
        (s1\<lparr>tradeGenerator := g', calls := calls s1 @ [GenerateBatch 0 c, WriteTrades 0 ts]\<rparr>)\<lparr>runs := [(r1, Awaiting c)]\<rparr>"
      using writeResolved_sole [OF r, of G clock] L unfolding r1_def s1_def by simp
    have len: "batch_exact G \<Longrightarrow> length ts = min B (T - Suc j * B)"
      using g Inr unfolding c_def by (auto dest: batch_exactD)
    have "batching_state G T B (Suc j) (writeResolved G clock 0 s)"
      unfolding W batching_state_def
      using p1 t1 ns pg le gz lw bx len
      by (simp add: s1_def c_def replicate_append_same)
    then show ?thesis ..
  qed
qed

lemma batching_chain:
  assumes "svc_getTotalTrades G g = int T" "svc_getRecommendedBatchSize G g = int B"
  shows "j * B < T \<Longrightarrow>
     has_error (emitted (exec G clock (newTradeIngestionService g) (CallStart # replicate j (WriteResolved 0))))
   \<or> batching_state G T B j (exec G clock (newTradeIngestionService g) (CallStart # replicate j (WriteResolved 0)))"
proof (induction j)
  case 0
  then show ?case using batching_start [OF _ assms, of clock] by (simp add: exec_Cons)
next
  case (Suc j)
  let ?s = "exec G clock (newTradeIngestionService g) (CallStart # replicate j (WriteResolved 0))"
  have E: "exec G clock (newTradeIngestionService g) (CallStart # replicate (Suc j) (WriteResolved 0)) = writeResolved G clock 0 ?s"
    by (rule exec_start_resolves_Suc)
  from Suc.prems have "j * B < T" by simp
  from Suc.IH [OF this] show ?case
  proof
    assume "has_error (emitted ?s)"
    then have "has_error (emitted (step G clock ?s (WriteResolved 0)))" by (rule step_has_error)
    then show ?thesis unfolding E by simp
  next
    assume "batching_state G T B j ?s"
    from batching_step [OF Suc.prems this, of clock] show ?thesis unfolding E .
  qed
qed

lemma batching_final:
  assumes lt: "j * B < T" and ge: "T \<le> Suc j * B" and A: "batching_state G T B j s"
  shows "\<exists>ps d r. emitted (writeResolved G clock 0 s) = ps @ [EvComplete d]
           \<and> list_all is_progress ps \<and> length ps = Suc j
           \<and> processed d = int T \<and> total d = int T \<and> percentage d = Num 100 \<and> estimatedRemainingMs d = Num 0
           \<and> calls (writeResolved G clock 0 s) = calls s
           \<and> runs (writeResolved G clock 0 s) = [(r, Resolved)] \<and> processedTrades r = int T"
proof -
  from lt ge have mn: "min B (T - j * B) = T - j * B" by simp
  from A obtain r where r: "runs s = [(r, Awaiting (int (T - j * B)))]"
    and tt: "l_totalTrades r = int T" and bb: "l_batchSize r = int B"
    and pp: "processedTrades r = int (j * B)" and ns: "\<not> isStopped s"
    and pg: "list_all is_progress (emitted s)" and le: "length (emitted s) = j"
    unfolding batching_state_def mn by blast
  define r1 where "r1 = r\<lparr>processedTrades := processedTrades r + int (T - j * B)\<rparr>"
  define s1 where "s1 = s\<lparr>emitted := emitted s @ [EvProgress (progressData clock r1 (clockReads s))],
             clockReads := clockReads s + 1\<rparr>"
  have p1: "processedTrades r1 = int T" using lt by (simp add: r1_def pp)
  have t1: "l_totalTrades r1 = int T" by (simp add: r1_def tt)
  have nlt: "\<not> processedTrades r1 < l_totalTrades r1" by (simp add: p1 t1)
  have ns1: "\<not> isStopped s1" using ns by (simp add: s1_def)
  have L: "ingestion_loop G clock 0 r1 s1 =
     (Resolved, s1\<lparr>emitted := emitted s1 @ [EvComplete (completeData clock r1 (clockReads s1))],
                  clockReads := clockReads s1 + 2\<rparr>)"
    by (rule loop_exit [OF nlt ns1])
  have W: "writeResolved G clock 0 s =
      (s1\<lparr>emitted := emitted s1 @ [EvComplete (completeData clock r1 (clockReads s1))],
                  clockReads := clockReads s1 + 2\<rparr>)\<lparr>runs := [(r1, Resolved)]\<rparr>"
    using writeResolved_sole [OF r, of G clock] L unfolding r1_def s1_def by simp
  show ?thesis
    unfolding W
    apply (rule exI [of _ "emitted s @ [EvProgress (progressData clock r1 (clockReads s))]"])
    apply (rule exI [of _ "completeData clock r1 (clockReads s1)"])
    apply (rule exI [of _ r1])
    using pg le p1 t1 by (simp add: s1_def completeData_def)
qed

lemma ceil_div_bounds:
  fixes B T :: nat
  assumes "1 \<le> B" "0 < T"
  shows "((T + B - 1) div B - 1) * B < T" "T \<le> (T + B - 1) div B * B" "1 \<le> (T + B - 1) div B"
proof -
  define n where "n = (T + B - 1) div B"
  have B: "0 < B" using assms by simp
  have "B \<le> T + B - 1" using assms by simp
  then have "B div B \<le> (T + B - 1) div B" by (rule div_le_mono)
  then show n1: "1 \<le> (T + B - 1) div B" using B by simp
  have m: "(T + B - 1) mod B < B" using B by simp
  have e: "n * B + (T + B - 1) mod B = T + B - 1" unfolding n_def by simp
  from e m have "T + B - 1 < n * B + B" by linarith
  then show "T \<le> (T + B - 1) div B * B" using assms unfolding n_def by linarith
  from e have le: "n * B \<le> T + B - 1" by linarith
  from n1 obtain k where k: "n = Suc k" unfolding n_def by (metis Suc_le_D One_nat_def)
  from le k have "k * B + B \<le> T + B - 1" by simp
  then have "k * B < T" using assms by linarith
  then show "((T + B - 1) div B - 1) * B < T" using k unfolding n_def by simp
qed

lemma sizes_closed_form:
  fixes B T j :: nat
  assumes "1 \<le> B" "j * B < T" "T \<le> Suc j * B"
  shows "replicate j B @ [min B (T - j * B)] =
         replicate (T div B) B @ (if T mod B = 0 then [] else [T mod B])"
proof (cases "T = Suc j * B")
  case True
  then have "T div B = Suc j" "T mod B = 0" "min B (T - j * B) = B" using assms(1) by simp_all
  then show ?thesis by (simp add: replicate_append_same)
next
  case False
  with assms have lt: "T < Suc j * B" by simp
  have B: "0 < B" using assms by simp
  have d: "T div B = j"
  proof -
    have "j \<le> T div B" using assms(2) B by (simp add: less_eq_div_iff_mult_less_eq less_imp_le)
    moreover have "T div B < Suc j" using lt B by (simp add: div_less_iff_less_mult)
    ultimately show ?thesis by simp
  qed
  have m: "T mod B = T - j * B" using d by (metis minus_div_mult_eq_mod)
  from lt have "T < B + j * B" by simp
  then have "T - j * B < B" using assms(2) by linarith
  moreover have "T - j * B \<noteq> 0" using assms(2) by simp
  ultimately show ?thesis using d m by simp
qed

section \<open>The ingestion service: the claims\<close>

text \<open>
  Claim C4: when the \<open>k\<close>-th \<open>writeTrades\<close> of a run is rejected with \<open>e\<close> after the
  \<open>k - 1\<close> earlier ones were fulfilled (whatever \<open>stopIngestion\<close> calls arrive while it is
  pending), exactly one \<open>error\<close> event is emitted and it carries \<open>e\<close>, the promise of
  \<open>startIngestion\<close> is rejected with \<open>e\<close>, \<open>k\<close> writes were issued and \<open>k - 1\<close> \<open>progress\<close>
  events emitted, and the counter is the sum of the sizes of the first \<open>k - 1\<close> batches,
  the failed one not counted.
\<close>

theorem write_failure_keeps_counter:
  assumes "1 \<le> k"
    and "run_status (exec G clock (newTradeIngestionService g)
            (CallStart # replicate (k - 1) (WriteResolved 0))) 0 = Awaiting c"
  shows "let s' = exec G clock (newTradeIngestionService g)
                    (CallStart # replicate (k - 1) (WriteResolved 0) @ replicate m CallStop @ [WriteRejected 0 e])
         in filter is_error (emitted s') = [EvError e]
          \<and> run_status s' 0 = Rejected e
          \<and> length (write_sizes 0 (calls s')) = k
          \<and> length (filter is_progress (emitted s')) = k - 1
          \<and> run_processed s' 0 = sum_list (take (k - 1) (generate_sizes 0 (calls s')))
          \<and> (batch_exact G \<longrightarrow> write_sizes 0 (calls s') = map nat (generate_sizes 0 (calls s')))"
proof -
  define s where "s = exec G clock (newTradeIngestionService g) (CallStart # replicate (k - 1) (WriteResolved 0))"
  define t where "t = exec G clock s (replicate m CallStop)"
  have A: "awaiting_state G (k - 1) s c" unfolding s_def using assms(2) by (rule awaiting_chain)
  then obtain r where r: "runs s = [(r, Awaiting c)]"
    and pg: "list_all is_progress (emitted s)" and le: "length (emitted s) = k - 1"
    and lw: "length (write_sizes 0 (calls s)) = Suc (k - 1)"
    and pr: "processedTrades r = sum_list (take (k - 1) (generate_sizes 0 (calls s)))"
    and bx: "batch_exact G \<longrightarrow> write_sizes 0 (calls s) = map nat (generate_sizes 0 (calls s))"
    unfolding awaiting_state_def by blast
  have T: "runs t = runs s" "calls t = calls s" "emitted t = emitted s @ replicate m EvStopped"
    using exec_stops [of G clock s m t] by (simp_all add: t_def)
  have "exec G clock (newTradeIngestionService g)
             ((CallStart # replicate (k - 1) (WriteResolved 0)) @ (replicate m CallStop @ [WriteRejected 0 e]))
           = exec G clock s (replicate m CallStop @ [WriteRejected 0 e])"
    unfolding s_def by (rule exec_append)
  also have "\<dots> = writeRejected 0 e t"
    unfolding t_def by (simp only: exec_snoc step.simps)
  finally have F: "exec G clock (newTradeIngestionService g)
             (CallStart # replicate (k - 1) (WriteResolved 0) @ replicate m CallStop @ [WriteRejected 0 e])
           = writeRejected 0 e t"
    by simp
  have W: "emitted (writeRejected 0 e t) = emitted s @ replicate m EvStopped @ [EvError e]"
     "runs (writeRejected 0 e t) = [(r, Rejected e)]"
     "calls (writeRejected 0 e t) = calls s"
    using T r by (simp_all add: writeRejected_def)
  have fe: "filter is_error (replicate m EvStopped) = []" by (induction m) simp_all
  have fp: "filter is_progress (replicate m EvStopped) = []" by (induction m) simp_all
  show ?thesis
    unfolding Let_def F
    using assms(1) pg le lw pr bx
    by (simp add: W run_status_def run_processed_def filter_error_progress filter_progress_all fe fp)
qed

theorem write_failure_keeps_counter_witness:
  "(1 :: nat) \<le> 2
   \<and> run_status (exec sample_svc tick_clock sample_service [CallStart, WriteResolved 0]) 0 = Awaiting 1
   \<and> filter is_error (emitted (exec sample_svc tick_clock sample_service
        [CallStart, WriteResolved 0, CallStop, WriteRejected 0 (JsError ''write failed'')]))
       = [EvError (JsError ''write failed'')]
   \<and> run_status (exec sample_svc tick_clock sample_service
        [CallStart, WriteResolved 0, CallStop, WriteRejected 0 (JsError ''write failed'')]) 0
       = Rejected (JsError ''write failed'')
   \<and> run_processed (exec sample_svc tick_clock sample_service
        [CallStart, WriteResolved 0, CallStop, WriteRejected 0 (JsError ''write failed'')]) 0 = 2"
proof -
  have h: "run_status (exec sample_svc tick_clock (newTradeIngestionService sample_generator)
             (CallStart # replicate (2 - 1) (WriteResolved 0))) 0 = Awaiting 1"
    by (simp add: eval_defs)
  have c: "generate_sizes 0 (calls (exec sample_svc tick_clock sample_service
        [CallStart, WriteResolved 0, CallStop, WriteRejected 0 (JsError ''write failed'')])) = [2, 1]"
    by (simp add: eval_defs)
  from write_failure_keeps_counter [of 2 sample_svc tick_clock sample_generator 1 1 "JsError ''write failed''", OF _ h]
  have "filter is_error (emitted (exec sample_svc tick_clock sample_service
        [CallStart, WriteResolved 0, CallStop, WriteRejected 0 (JsError ''write failed'')]))
       = [EvError (JsError ''write failed'')]
     \<and> run_status (exec sample_svc tick_clock sample_service
        [CallStart, WriteResolved 0, CallStop, WriteRejected 0 (JsError ''write failed'')]) 0
       = Rejected (JsError ''write failed'')
     \<and> run_processed (exec sample_svc tick_clock sample_service
        [CallStart, WriteResolved 0, CallStop, WriteRejected 0 (JsError ''write failed'')]) 0
       = sum_list (take 1 (generate_sizes 0 (calls (exec sample_svc tick_clock sample_service
        [CallStart, WriteResolved 0, CallStop, WriteRejected 0 (JsError ''write failed'')]))))"
    by (simp add: Let_def sample_service_def)
  with h c show ?thesis by (simp add: sample_service_def)
qed

text \<open>
  Claim C5: with \<open>total = T \<ge> 0\<close> and \<open>batchSize = B \<ge> 1\<close>, a run that is not stopped,
  whose generator returns batches of the size asked for and in which nothing fails,
  issues \<open>ceil(T / B)\<close> writes, \<open>T div B\<close> of size \<open>B\<close> followed by one of size \<open>T mod B\<close>
  when that is not zero, emits one \<open>progress\<close> event per write and then a single
  \<open>complete\<close> event with \<open>processed = T\<close>, \<open>percentage = 100\<close> and
  \<open>estimatedRemainingMs = 0\<close>; with \<open>T = 0\<close> it calls neither collaborator.
\<close>

theorem full_run_batches:
  fixes T B :: nat
  assumes "1 \<le> B"
    and "svc_getTotalTrades G g = int T"
    and "svc_getRecommendedBatchSize G g = int B"
    and "batch_exact G"
    and "\<not> has_error (emitted (exec G clock (newTradeIngestionService g)
            (CallStart # replicate ((T + B - 1) div B) (WriteResolved 0))))"
  shows "let n = (T + B - 1) div B;
             s' = exec G clock (newTradeIngestionService g) (CallStart # replicate n (WriteResolved 0))
         in write_sizes 0 (calls s') = replicate (T div B) B @ (if T mod B = 0 then [] else [T mod B])
          \<and> length (write_sizes 0 (calls s')) = n
          \<and> (\<exists>ps d. emitted s' = ps @ [EvComplete d] \<and> list_all is_progress ps \<and> length ps = n
                \<and> processed d = int T \<and> total d = int T
                \<and> percentage d = Num 100 \<and> estimatedRemainingMs d = Num 0)
          \<and> run_status s' 0 = Resolved
          \<and> run_processed s' 0 = int T
          \<and> (T = 0 \<longrightarrow> calls s' = [])"
proof (cases "T = 0")
  case True
  let ?s0 = "(newTradeIngestionService g :: ('a, 'b) TradeIngestionServiceImpl)\<lparr>isStopped := False, clockReads := 1\<rparr>"
  let ?r = "\<lparr>l_totalTrades = int T, l_batchSize = int B, processedTrades = 0, startTime = clock 0\<rparr>"
  have n0: "(T + B - 1) div B = 0" using True assms(1) by simp
  have L: "ingestion_loop G clock 0 ?r ?s0 =
     (Resolved, ?s0\<lparr>emitted := emitted ?s0 @ [EvComplete (completeData clock ?r (clockReads ?s0))],
                  clockReads := clockReads ?s0 + 2\<rparr>)"
    by (rule loop_exit) (simp_all add: True)
  have S: "exec G clock (newTradeIngestionService g) [CallStart] =
     (?s0\<lparr>emitted := emitted ?s0 @ [EvComplete (completeData clock ?r (clockReads ?s0))],
                  clockReads := clockReads ?s0 + 2\<rparr>)\<lparr>runs := [(?r, Resolved)]\<rparr>"
    using L assms(2,3) by (simp add: exec_Cons startIngestion_def newTradeIngestionService_def Let_def)
  show ?thesis
    unfolding Let_def n0 replicate_0 S
    using True by (simp add: newTradeIngestionService_def completeData_def run_status_def run_processed_def)
next
  case False
  then have T: "0 < T" by simp
  define n where "n = (T + B - 1) div B"
  from ceil_div_bounds [OF assms(1) T] obtain j where j: "n = Suc j"
    and lt: "j * B < T" and ge: "T \<le> Suc j * B"
    unfolding n_def by (metis Suc_le_D One_nat_def diff_Suc_1)
  define s where "s = exec G clock (newTradeIngestionService g) (CallStart # replicate j (WriteResolved 0))"
  have E: "exec G clock (newTradeIngestionService g) (CallStart # replicate n (WriteResolved 0)) = writeResolved G clock 0 s"
    unfolding j s_def by (rule exec_start_resolves_Suc)
  have ne: "\<not> has_error (emitted (writeResolved G clock 0 s))"
    using assms(5) E unfolding n_def by simp
  have "\<not> has_error (emitted s)"
  proof
    assume "has_error (emitted s)"
    then have "has_error (emitted (step G clock s (WriteResolved 0)))" by (rule step_has_error)
    with ne show False by simp
  qed
  with batching_chain [OF assms(2,3) lt, of clock] have A: "batching_state G T B j s"
    unfolding s_def by blast
  from batching_final [OF lt ge A, of clock] obtain ps d r where
    F: "emitted (writeResolved G clock 0 s) = ps @ [EvComplete d]"
       "list_all is_progress ps" "length ps = Suc j"
       "processed d = int T" "total d = int T" "percentage d = Num 100" "estimatedRemainingMs d = Num 0"
       "calls (writeResolved G clock 0 s) = calls s"
       "runs (writeResolved G clock 0 s) = [(r, Resolved)]" "processedTrades r = int T"
    by blast
  from A assms(4) have W: "write_sizes 0 (calls s) = replicate j B @ [min B (T - j * B)]"
    unfolding batching_state_def by blast
  have C: "write_sizes 0 (calls s) = replicate (T div B) B @ (if T mod B = 0 then [] else [T mod B])"
    unfolding W by (rule sizes_closed_form [OF assms(1) lt ge])
  have len: "length (write_sizes 0 (calls s)) = n" unfolding W j by simp
  show ?thesis
    unfolding Let_def n_def [symmetric] E
    using F C len False by (simp add: run_status_def run_processed_def j)
qed

theorem full_run_batches_witness:
  "svc_getTotalTrades sample_svc sample_generator = 3
   \<and> svc_getRecommendedBatchSize sample_svc sample_generator = 2
   \<and> \<not> has_error (emitted (exec sample_svc tick_clock sample_service
          [CallStart, WriteResolved 0, WriteResolved 0]))
   \<and> write_sizes 0 (calls (exec sample_svc tick_clock sample_service
          [CallStart, WriteResolved 0, WriteResolved 0])) = [2, 1]
   \<and> run_status (exec sample_svc tick_clock sample_service
          [CallStart, WriteResolved 0, WriteResolved 0]) 0 = Resolved
   \<and> run_processed (exec sample_svc tick_clock sample_service
          [CallStart, WriteResolved 0, WriteResolved 0]) 0 = 3"
proof -
  have h1: "(1 :: nat) \<le> 2" by simp
  have h2: "svc_getTotalTrades sample_svc sample_generator = int 3"
    by (simp add: eval_defs)
  have h3: "svc_getRecommendedBatchSize sample_svc sample_generator = int 2"
    by (simp add: eval_defs)
  have h4: "batch_exact sample_svc"
    unfolding sample_svc_def by (rule batch_exact_generator)
  have e: "\<not> has_error (emitted (exec sample_svc tick_clock sample_service
          [CallStart, WriteResolved 0, WriteResolved 0]))"
    by (simp add: eval_defs has_error_def)
  have n: "((3 :: nat) + 2 - 1) div 2 = Suc (Suc 0)" by simp
  have l: "CallStart # replicate ((3 + 2 - 1) div 2) (WriteResolved 0)
      = [CallStart, WriteResolved 0, WriteResolved 0]"
    unfolding n by simp
  have h5: "\<not> has_error (emitted (exec sample_svc tick_clock (newTradeIngestionService sample_generator)
            (CallStart # replicate ((3 + 2 - 1) div 2) (WriteResolved 0))))"
    unfolding l using e by (simp add: sample_service_def)
  from full_run_batches [OF h1 h2 h3 h4 h5] have
    "write_sizes 0 (calls (exec sample_svc tick_clock sample_service
          [CallStart, WriteResolved 0, WriteResolved 0])) = [2, 1]
     \<and> run_status (exec sample_svc tick_clock sample_service
          [CallStart, WriteResolved 0, WriteResolved 0]) 0 = Resolved
     \<and> run_processed (exec sample_svc tick_clock sample_service
          [CallStart, WriteResolved 0, WriteResolved 0]) 0 = 3"
    unfolding Let_def l sample_service_def [symmetric] by simp
  with h2 h3 e show ?thesis by simp
qed

text \<open>
  Claim C2 as the code has it. A run on which \<open>stopIngestion\<close> is never called and whose
  promise is settled has emitted \<open>progress\<close> events followed by exactly one event, a
  \<open>complete\<close> or an \<open>error\<close>. Every call of \<open>stopIngestion\<close> emits one \<open>stopped\<close> event of its
  own, at the time of the call. After a call of \<open>stopIngestion\<close>, and until
  \<open>startIngestion\<close> is called again, no \<open>complete\<close> event is emitted.
\<close>

theorem run_event_shape:
  "(CallStart \<notin> set acts \<and> CallStop \<notin> set acts
      \<and> (\<forall>c. run_status (exec G clock (newTradeIngestionService g) (CallStart # acts)) 0 \<noteq> Awaiting c)
     \<longrightarrow> (\<exists>ps t. emitted (exec G clock (newTradeIngestionService g) (CallStart # acts)) = ps @ [t]
            \<and> list_all is_progress ps \<and> (is_complete t \<or> is_error t)))
   \<and> count_stopped (emitted (exec G clock (newTradeIngestionService g) (CallStart # acts)))
       = count_list acts CallStop
   \<and> (CallStart \<notin> set post
     \<longrightarrow> filter is_complete (emitted (exec G clock (stopIngestion s) post)) = filter is_complete (emitted s))"
proof (intro conjI impI)
  assume A: "CallStart \<notin> set acts \<and> CallStop \<notin> set acts
      \<and> (\<forall>c. run_status (exec G clock (newTradeIngestionService g) (CallStart # acts)) 0 \<noteq> Awaiting c)"
  let ?s = "exec G clock (newTradeIngestionService g) (CallStart # acts)"
  have "single_run_inv (exec G clock (startIngestion G clock (newTradeIngestionService g)) acts)"
    using A by (intro exec_inv [OF start_inv]) simp_all
  then have I: "single_run_inv ?s" by (simp add: exec_Cons)
  from A have "\<forall>c. snd (runs ?s ! 0) \<noteq> Awaiting c" by (simp add: run_status_def)
  with I show "\<exists>ps t. emitted ?s = ps @ [t] \<and> list_all is_progress ps \<and> (is_complete t \<or> is_error t)"
    unfolding single_run_inv_def by (cases "snd (runs ?s ! 0)") auto
next
  have "count_stopped (emitted (exec G clock (newTradeIngestionService g) (CallStart # acts)))
      = count_stopped (emitted (newTradeIngestionService g :: ('a, 'b) TradeIngestionServiceImpl)) + count_list (CallStart # acts) CallStop"
    by (rule exec_count_stopped)
  then show "count_stopped (emitted (exec G clock (newTradeIngestionService g) (CallStart # acts)))
       = count_list acts CallStop"
    by (simp add: newTradeIngestionService_def count_stopped_def)
next
  assume "CallStart \<notin> set post"
  with exec_stopped [of "stopIngestion s" post G clock]
  show "filter is_complete (emitted (exec G clock (stopIngestion s) post)) = filter is_complete (emitted s)"
    by (simp add: stopIngestion_def)
qed

theorem run_event_shape_witness:
  "CallStart \<notin> set [WriteResolved 0, WriteResolved 0]
   \<and> CallStop \<notin> set [WriteResolved 0, WriteResolved 0]
   \<and> run_status (exec sample_svc tick_clock sample_service
        [CallStart, WriteResolved 0, WriteResolved 0]) 0 = Resolved
   \<and> (\<exists>ps t. emitted (exec sample_svc tick_clock sample_service
                 [CallStart, WriteResolved 0, WriteResolved 0]) = ps @ [t]
          \<and> list_all is_progress ps \<and> (is_complete t \<or> is_error t))
   \<and> count_stopped (emitted (exec sample_svc tick_clock sample_service
        [CallStart, WriteResolved 0, WriteResolved 0])) = 0
   \<and> filter is_complete (emitted (exec sample_svc tick_clock
        (stopIngestion (exec sample_svc tick_clock sample_service [CallStart])) [WriteResolved 0])) = []"
proof -
  have h1: "CallStart \<notin> set [WriteResolved 0, WriteResolved 0]
      \<and> CallStop \<notin> set [WriteResolved 0, WriteResolved 0]" by simp
  have h2: "run_status (exec sample_svc tick_clock (newTradeIngestionService sample_generator)
        (CallStart # [WriteResolved 0, WriteResolved 0])) 0 = Resolved"
    by (simp add: eval_defs)
  have h3: "CallStart \<notin> set [WriteResolved 0]" by simp
  have h4: "filter is_complete (emitted (exec sample_svc tick_clock sample_service [CallStart])) = []"
    by (simp add: eval_defs)
  from run_event_shape [of "[WriteResolved 0, WriteResolved 0]" sample_svc tick_clock sample_generator
      "[WriteResolved 0]" "exec sample_svc tick_clock sample_service [CallStart]"]
    h1 h2 h3 h4
  show ?thesis by (simp add: sample_service_def)
qed

text \<open>Claim C2 as stated fails: a run during which \<open>stopIngestion\<close> is called twice emits
  two \<open>stopped\<close> events (and the \<open>progress\<close> event of the batch in flight after them).\<close>

theorem two_stops_two_stopped_events:
  "length (filter is_terminal (emitted (exec sample_svc tick_clock sample_service
      [CallStart, CallStop, CallStop, WriteResolved 0]))) = 2
   \<and> run_status (exec sample_svc tick_clock sample_service
      [CallStart, CallStop, CallStop, WriteResolved 0]) 0 = Resolved"
  by (simp add: eval_defs progressData_def)

text \<open>
  Claim C3 as the code has it. Every call of \<open>stopIngestion\<close> succeeds, sets the flag and
  emits one \<open>stopped\<close> event, whether or not a run is in progress, and changes nothing
  else; a second call changes nothing but the event log, to which it adds a second
  \<open>stopped\<close>. After a call, and until \<open>startIngestion\<close> is called again, no
  \<open>generateBatch\<close> or \<open>writeTrades\<close> call is made: a run that awaited a write when the
  call came counts that batch when the write is fulfilled and settles.
\<close>

theorem stop_always_emits_and_halts:
  "isStopped (stopIngestion s) \<and> emitted (stopIngestion s) = emitted s @ [EvStopped]
   \<and> runs (stopIngestion s) = runs s \<and> calls (stopIngestion s) = calls s
   \<and> tradeGenerator (stopIngestion s) = tradeGenerator s \<and> clockReads (stopIngestion s) = clockReads s
   \<and> stopIngestion (stopIngestion s) = (stopIngestion s)\<lparr>emitted := emitted s @ [EvStopped, EvStopped]\<rparr>
   \<and> (CallStart \<notin> set acts \<longrightarrow>
        calls (exec G clock (stopIngestion s) acts) = calls s \<and> isStopped (exec G clock (stopIngestion s) acts))
   \<and> (rid < length (runs s) \<and> snd (runs s ! rid) = Awaiting c \<longrightarrow>
        run_status (writeResolved G clock rid (stopIngestion s)) rid = Resolved
        \<and> run_processed (writeResolved G clock rid (stopIngestion s)) rid = run_processed s rid + c)"
proof (intro conjI impI)
  assume "CallStart \<notin> set acts"
  with exec_stopped [of "stopIngestion s" acts G clock]
  show "calls (exec G clock (stopIngestion s) acts) = calls s"
    and "isStopped (exec G clock (stopIngestion s) acts)"
    by (simp_all add: stopIngestion_def)
next
  assume A: "rid < length (runs s) \<and> snd (runs s ! rid) = Awaiting c"
  obtain r where r: "runs s ! rid = (r, Awaiting c)" using A by (cases "runs s ! rid") auto
  have W: "writeResolved G clock rid (stopIngestion s) =
     ((stopIngestion s)\<lparr>emitted := emitted (stopIngestion s) @
          [EvProgress (progressData clock (r\<lparr>processedTrades := processedTrades r + c\<rparr>) (clockReads (stopIngestion s)))],
        clockReads := clockReads (stopIngestion s) + 1\<rparr>)
      \<lparr>runs := (runs s)[rid := (r\<lparr>processedTrades := processedTrades r + c\<rparr>, Resolved)]\<rparr>"
    using A r by (simp add: writeResolved_def Let_def loop_stopped stopIngestion_def)
  show "run_status (writeResolved G clock rid (stopIngestion s)) rid = Resolved"
    and "run_processed (writeResolved G clock rid (stopIngestion s)) rid = run_processed s rid + c"
    unfolding W using A r by (simp_all add: run_status_def run_processed_def)
qed (simp_all add: stopIngestion_def)

theorem stop_always_emits_and_halts_witness:
  "CallStart \<notin> set [WriteResolved 0, CallStop]
   \<and> snd (runs (exec sample_svc tick_clock sample_service [CallStart]) ! 0) = Awaiting 2
   \<and> calls (exec sample_svc tick_clock
        (stopIngestion (exec sample_svc tick_clock sample_service [CallStart]))
        [WriteResolved 0, CallStop])
      = calls (exec sample_svc tick_clock sample_service [CallStart])
   \<and> run_status (writeResolved sample_svc tick_clock 0
        (stopIngestion (exec sample_svc tick_clock sample_service [CallStart]))) 0 = Resolved
   \<and> run_processed (writeResolved sample_svc tick_clock 0
        (stopIngestion (exec sample_svc tick_clock sample_service [CallStart]))) 0 = 2"
proof -
  have h1: "CallStart \<notin> set [WriteResolved 0, CallStop]" by simp
  have h2: "0 < length (runs (exec sample_svc tick_clock sample_service [CallStart]))
      \<and> snd (runs (exec sample_svc tick_clock sample_service [CallStart]) ! 0) = Awaiting 2"
    by (simp add: eval_defs)
  have h3: "run_processed (exec sample_svc tick_clock sample_service [CallStart]) 0 = 0"
    by (simp add: eval_defs)
  from stop_always_emits_and_halts [of "exec sample_svc tick_clock sample_service [CallStart]"
      "[WriteResolved 0, CallStop]" sample_svc tick_clock 0 2] h1 h2 h3
  show ?thesis by simp
qed

text \<open>Claim C3 as stated fails: \<open>stopIngestion\<close> on a service on which \<open>startIngestion\<close>
  was never called emits a \<open>stopped\<close> event.\<close>

theorem idle_stop_emits_stopped:
  "runs sample_service = [] \<and> emitted sample_service = []
   \<and> emitted (stopIngestion sample_service) = [EvStopped]"
  by (simp add: eval_defs)

text \<open>
  Claim C1 as the code has it. \<open>startIngestion\<close> does not look at the runs in progress:
  called while run \<open>rid\<close> awaits a write, it leaves that run's counter and status as they
  were, clears the flag \<open>isStopped\<close>, emits no \<open>stopped\<close> event, and starts a further run
  with a counter of its own at 0. With a positive configured total the new run calls
  \<open>generateBatch\<close> for the first batch: if that returns, the batch is handed to
  \<open>writeTrades\<close> and the new run awaits that write, no event emitted; if it throws, the
  new run emits \<open>error\<close> and is rejected with the error thrown, and for no other reason.
  With a total that is not positive the new run calls neither, emits \<open>complete\<close> and
  resolves.
\<close>

theorem second_start_runs_alongside:
  assumes "rid < length (runs s)" and "snd (runs s ! rid) = Awaiting c"
  shows "let s' = startIngestion G clock s;
             n = length (runs s);
             tot = svc_getTotalTrades G (tradeGenerator s);
             bs = svc_getRecommendedBatchSize G (tradeGenerator s);
             cur = min bs (tot - 0)
         in runs s' ! rid = runs s ! rid
          \<and> length (runs s') = Suc n
          \<and> run_processed s' n = 0
          \<and> (case run_status s' n of
                Rejected e \<Rightarrow> fst (svc_generateBatch G (tradeGenerator s) cur) = Inl e
              | _ \<Rightarrow> True)
          \<and> \<not> isStopped s'
          \<and> count_stopped (emitted s') = count_stopped (emitted s)
          \<and> (\<forall>ts g'. 0 < tot \<and> svc_generateBatch G (tradeGenerator s) cur = (Inr ts, g') \<longrightarrow>
                run_status s' n = Awaiting cur
              \<and> calls s' = calls s @ [GenerateBatch n cur, WriteTrades n ts]
              \<and> emitted s' = emitted s
              \<and> tradeGenerator s' = g')
          \<and> (\<forall>e g'. 0 < tot \<and> svc_generateBatch G (tradeGenerator s) cur = (Inl e, g') \<longrightarrow>
                run_status s' n = Rejected e
              \<and> calls s' = calls s @ [GenerateBatch n cur]
              \<and> emitted s' = emitted s @ [EvError e]
              \<and> tradeGenerator s' = g')
          \<and> (tot \<le> 0 \<longrightarrow>
                run_status s' n = Resolved
              \<and> calls s' = calls s
              \<and> tradeGenerator s' = tradeGenerator s
              \<and> (\<exists>d. emitted s' = emitted s @ [EvComplete d] \<and> processed d = 0 \<and> total d = tot))"
proof -
  let ?r = "\<lparr>l_totalTrades = svc_getTotalTrades G (tradeGenerator s),
        l_batchSize = svc_getRecommendedBatchSize G (tradeGenerator s),
        processedTrades = 0, startTime = clock (clockReads s)\<rparr>"
  let ?s0 = "s\<lparr>isStopped := False, clockReads := clockReads s + 1\<rparr>"
  let ?n = "length (runs s)"
  let ?tot = "svc_getTotalTrades G (tradeGenerator s)"
  let ?cur = "min (svc_getRecommendedBatchSize G (tradeGenerator s)) (?tot - 0)"
  obtain st s1 where L: "ingestion_loop G clock ?n ?r ?s0 = (st, s1)" by force
  have S: "startIngestion G clock s = s1\<lparr>runs := runs s1 @ [(?r, st)]\<rparr>"
    using L by (simp add: startIngestion_def Let_def)
  have R: "st = Rejected e \<Longrightarrow> fst (svc_generateBatch G (tradeGenerator s) ?cur) = Inl e" for e
    using loop_rejected [of G clock ?n ?r ?s0 e s1] L by simp
  have old: "runs (startIngestion G clock s) ! rid = runs s ! rid
      \<and> length (runs (startIngestion G clock s)) = Suc ?n
      \<and> run_processed (startIngestion G clock s) ?n = 0
      \<and> (case run_status (startIngestion G clock s) ?n of
            Rejected e \<Rightarrow> fst (svc_generateBatch G (tradeGenerator s) ?cur) = Inl e
          | _ \<Rightarrow> True)
      \<and> \<not> isStopped (startIngestion G clock s)
      \<and> count_stopped (emitted (startIngestion G clock s)) = count_stopped (emitted s)"
    using loop_frame [OF L] loop_count_stopped [OF L] R assms(1)
    unfolding S
    by (cases st) (simp_all add: run_status_def run_processed_def nth_append)
  have A: "run_status (startIngestion G clock s) ?n = Awaiting ?cur
      \<and> calls (startIngestion G clock s) = calls s @ [GenerateBatch ?n ?cur, WriteTrades ?n ts]
      \<and> emitted (startIngestion G clock s) = emitted s
      \<and> tradeGenerator (startIngestion G clock s) = g'"
    if "0 < ?tot \<and> svc_generateBatch G (tradeGenerator s) ?cur = (Inr ts, g')" for ts g'
  proof -
    from that have "ingestion_loop G clock ?n ?r ?s0 =
        (Awaiting ?cur,
         ?s0\<lparr>tradeGenerator := g',
             calls := calls ?s0 @ [GenerateBatch ?n ?cur, WriteTrades ?n ts]\<rparr>)"
      using loop_batch [of ?r ?s0 G ts g' clock ?n] by simp
    with L have "st = Awaiting ?cur"
      "s1 = ?s0\<lparr>tradeGenerator := g',
             calls := calls ?s0 @ [GenerateBatch ?n ?cur, WriteTrades ?n ts]\<rparr>"
      by simp_all
    then show ?thesis unfolding S by (simp add: run_status_def)
  qed
  have B: "run_status (startIngestion G clock s) ?n = Rejected e
      \<and> calls (startIngestion G clock s) = calls s @ [GenerateBatch ?n ?cur]
      \<and> emitted (startIngestion G clock s) = emitted s @ [EvError e]
      \<and> tradeGenerator (startIngestion G clock s) = g'"
    if "0 < ?tot \<and> svc_generateBatch G (tradeGenerator s) ?cur = (Inl e, g')" for e g'
  proof -
    from that have "ingestion_loop G clock ?n ?r ?s0 =
        (Rejected e,
         ?s0\<lparr>tradeGenerator := g',
             calls := calls ?s0 @ [GenerateBatch ?n ?cur],
             emitted := emitted ?s0 @ [EvError e]\<rparr>)"
      using loop_throw [of ?r ?s0 G e g' clock ?n] by simp
    with L have "st = Rejected e"
      "s1 = ?s0\<lparr>tradeGenerator := g',
             calls := calls ?s0 @ [GenerateBatch ?n ?cur],
             emitted := emitted ?s0 @ [EvError e]\<rparr>"
      by simp_all
    then show ?thesis unfolding S by (simp add: run_status_def)
  qed
  have C: "run_status (startIngestion G clock s) ?n = Resolved
      \<and> calls (startIngestion G clock s) = calls s
      \<and> tradeGenerator (startIngestion G clock s) = tradeGenerator s
      \<and> (\<exists>d. emitted (startIngestion G clock s) = emitted s @ [EvComplete d]
             \<and> processed d = 0 \<and> total d = ?tot)"
    if "?tot \<le> 0"
  proof -
    from that have "ingestion_loop G clock ?n ?r ?s0 =
        (Resolved, ?s0\<lparr>emitted := emitted ?s0 @ [EvComplete (completeData clock ?r (clockReads ?s0))],
                  clockReads := clockReads ?s0 + 2\<rparr>)"
      using loop_exit [of ?r ?s0 G clock ?n] by simp
    with L have "st = Resolved"
      "s1 = ?s0\<lparr>emitted := emitted ?s0 @ [EvComplete (completeData clock ?r (clockReads ?s0))],
                  clockReads := clockReads ?s0 + 2\<rparr>"
      by simp_all
    then show ?thesis unfolding S by (simp add: run_status_def completeData_def)
  qed
  from old A B C show ?thesis unfolding Let_def by blast
qed

theorem second_start_runs_alongside_witness:
  "0 < length (runs (exec sample_svc tick_clock sample_service [CallStart]))
   \<and> snd (runs (exec sample_svc tick_clock sample_service [CallStart]) ! 0) = Awaiting 2
   \<and> runs (startIngestion sample_svc tick_clock
             (exec sample_svc tick_clock sample_service [CallStart])) ! 0
      = runs (exec sample_svc tick_clock sample_service [CallStart]) ! 0
   \<and> run_processed (startIngestion sample_svc tick_clock
             (exec sample_svc tick_clock sample_service [CallStart])) 1 = 0
   \<and> \<not> isStopped (startIngestion sample_svc tick_clock
             (exec sample_svc tick_clock sample_service [CallStart]))
   \<and> run_status (startIngestion sample_svc tick_clock
             (exec sample_svc tick_clock sample_service [CallStart])) 1 = Awaiting 2
   \<and> generate_sizes 1 (calls (startIngestion sample_svc tick_clock
             (exec sample_svc tick_clock sample_service [CallStart]))) = [2]
   \<and> write_sizes 1 (calls (startIngestion sample_svc tick_clock
             (exec sample_svc tick_clock sample_service [CallStart]))) = [2]
   \<and> emitted (startIngestion sample_svc tick_clock
             (exec sample_svc tick_clock sample_service [CallStart])) = []"
proof -
  define s where "s = exec sample_svc tick_clock sample_service [CallStart]"
  have h1: "0 < length (runs s)"
    by (simp add: s_def eval_defs)
  have h2: "snd (runs s ! 0) = Awaiting 2"
    by (simp add: s_def eval_defs)
  have h3: "length (runs s) = 1"
    by (simp add: s_def eval_defs)
  have tot: "svc_getTotalTrades sample_svc (tradeGenerator s) = 3"
    by (simp add: s_def eval_defs)
  have bs: "svc_getRecommendedBatchSize sample_svc (tradeGenerator s) = 2"
    by (simp add: s_def eval_defs)
  have ev: "emitted s = []"
    by (simp add: s_def eval_defs)
  have c1: "generate_sizes 1 (calls s) = []" "write_sizes 1 (calls s) = []"
    by (simp_all add: s_def eval_defs)
  obtain res g' where g: "svc_generateBatch sample_svc (tradeGenerator s) 2 = (res, g')"
    by force
  have "\<not> isl res \<and> length (projr res) = 2"
    using g by (auto simp: s_def eval_defs)
  then obtain ts where res: "res = Inr ts" "length ts = 2"
    by (cases res) auto
  from second_start_runs_alongside [OF h1 h2, of sample_svc tick_clock] h1 h2 h3 tot bs g res ev c1
  show ?thesis unfolding s_def [symmetric] by (simp add: Let_def)
qed

text \<open>Claim C1 as stated fails: a second call of \<open>startIngestion\<close> while the first run
  awaits its first write is not rejected; it awaits a write of its own, and no \<open>error\<close>
  event is emitted.\<close>

theorem second_start_not_rejected:
  "run_status (exec sample_svc tick_clock sample_service [CallStart]) 0 = Awaiting 2
   \<and> run_status (exec sample_svc tick_clock sample_service [CallStart, CallStart]) 1 = Awaiting 2
   \<and> filter is_error (emitted (exec sample_svc tick_clock sample_service [CallStart, CallStart])) = []"
  by (simp add: eval_defs)

end
